(* ===== verification/Ratelimit_Prelude.thy ===== *)
theory Ratelimit_Prelude
  imports Main "HOL-Library.Word" "HOL-Library.AList" "HOL-Library.Multiset"
begin

text \<open>
  Shared ground of the development: the collections of simplification rules the component
  theories extend, facts on association lists with distinct keys (the model of a Go
  \<^verbatim>\<open>map[string]*T\<close>), sorting by a comparison function (the model of \<^verbatim>\<open>sort.Slice\<close>), and
  run lengths of a list (the specification of a fixed-window counter). Nothing here is about
  one component.
\<close>

named_theorems int64_simps \<open>signed 64-bit arithmetic, read through sint\<close>
named_theorems go_simps \<open>evaluation of the Go runtime and standard library model\<close>
named_theorems counter_defs \<open>definitions of the counter maps' operations\<close>
named_theorems metric_simps \<open>effect of the metric updates on every field\<close>

section \<open>Association lists with distinct keys\<close>

abbreviation keys_of :: "('k \<times> 'v) list \<Rightarrow> 'k list" where
  "keys_of xs \<equiv> map fst xs"

lemma map_of_alist_update [simp]:
  "map_of (AList.update k v xs) k' = (if k' = k then Some v else map_of xs k')"
  by (simp add: update_conv')

lemma map_of_alist_delete [simp]:
  "map_of (AList.delete k xs) k' = (if k' = k then None else map_of xs k')"
  by (simp add: delete_conv')

lemma distinct_alist_update [simp]:
  "distinct (keys_of xs) \<Longrightarrow> distinct (keys_of (AList.update k v xs))"
  by (rule distinct_update)

lemma distinct_alist_delete [simp]:
  "distinct (keys_of xs) \<Longrightarrow> distinct (keys_of (AList.delete k xs))"
  by (rule distinct_delete)

lemma set_keys_update [simp]: "set (keys_of (AList.update k v xs)) = insert k (set (keys_of xs))"
  by (induction xs) auto

lemma set_keys_delete [simp]: "set (keys_of (AList.delete k xs)) = set (keys_of xs) - {k}"
  by (auto simp: delete_keys)

lemma mem_alist_update:
  "p \<in> set (AList.update k v xs) \<Longrightarrow> p = (k, v) \<or> p \<in> set xs"
  by (induction xs) (auto split: if_splits)

lemma mem_alist_delete: "p \<in> set (AList.delete k xs) \<Longrightarrow> p \<in> set xs"
  by (auto simp: AList.delete_eq)

lemma map_of_mem_iff:
  "distinct (keys_of xs) \<Longrightarrow> map_of xs k = Some v \<longleftrightarrow> (k, v) \<in> set xs"
  by (simp add: map_of_eq_Some_iff)

lemma length_alist_delete:
  "distinct (keys_of xs) \<Longrightarrow>
   length (AList.delete k xs) = (if map_of xs k = None then length xs else length xs - 1)"
proof (induction xs)
  case (Cons p xs)
  obtain k' v where p: "p = (k', v)" by (cases p)
  show ?case
  proof (cases "k' = k")
    case True
    with Cons p have "k \<notin> fst ` set xs" by auto
    with True p show ?thesis by (simp add: delete_id)
  next
    case False
    then have "map_of xs k \<noteq> None \<Longrightarrow> 0 < length xs" by (cases xs) auto
    with False Cons p show ?thesis by auto
  qed
qed simp

lemma length_alist_update:
  "length (AList.update k v xs) = (if map_of xs k = None then Suc (length xs) else length xs)"
  by (induction xs) auto

section \<open>Sorting by a comparison function\<close>

text \<open>
  \<^verbatim>\<open>sort.Slice\<close> leaves the slice as some permutation ordered by its \<^verbatim>\<open>less\<close>. Where \<open>less\<close> is a
  strict order that is total on the elements there is only one (\<open>sort_slice_unique\<close>), so the
  insertion sort below is that result.
\<close>

fun insert_by :: "('a \<Rightarrow> 'a \<Rightarrow> bool) \<Rightarrow> 'a \<Rightarrow> 'a list \<Rightarrow> 'a list" where
  "insert_by lt x [] = [x]"
| "insert_by lt x (y # ys) = (if lt y x then y # insert_by lt x ys else x # y # ys)"

fun sort_slice :: "('a \<Rightarrow> 'a \<Rightarrow> bool) \<Rightarrow> 'a list \<Rightarrow> 'a list" where
  "sort_slice lt [] = []"
| "sort_slice lt (x # xs) = insert_by lt x (sort_slice lt xs)"

lemma mset_insert_by [simp]: "mset (insert_by lt x xs) = add_mset x (mset xs)"
  by (induction xs) auto

lemma mset_sort_slice [simp]: "mset (sort_slice lt xs) = mset xs"
  by (induction xs) auto

lemma set_sort_slice [simp]: "set (sort_slice lt xs) = set xs"
  by (metis mset_sort_slice set_mset_mset)

lemma length_sort_slice [simp]: "length (sort_slice lt xs) = length xs"
  by (metis mset_sort_slice size_mset)

text \<open>The comparisons of the code are lexicographic: a strict order with incomparability
  an equivalence. \<open>weak_less\<close> names the two laws sorting needs.\<close>

definition weak_less :: "('a \<Rightarrow> 'a \<Rightarrow> bool) \<Rightarrow> bool" where
  "weak_less lt \<longleftrightarrow>
     (\<forall>x y. lt x y \<longrightarrow> \<not> lt y x) \<and> (\<forall>x y z. lt x y \<longrightarrow> lt x z \<or> lt z y)"

lemma weak_lessD:
  assumes "weak_less lt"
  shows "lt x y \<Longrightarrow> \<not> lt y x" and "\<not> lt x z \<Longrightarrow> \<not> lt z y \<Longrightarrow> \<not> lt x y"
  using assms unfolding weak_less_def by blast+

lemma sorted_insert_by:
  assumes "weak_less lt" and "sorted_wrt (\<lambda>a b. \<not> lt b a) xs"
  shows "sorted_wrt (\<lambda>a b. \<not> lt b a) (insert_by lt x xs)"
  using assms(2)
proof (induction xs)
  case (Cons y ys)
  have mem: "set (insert_by lt x ys) = insert x (set ys)"
    by (metis mset_insert_by set_mset_add_mset_insert set_mset_mset)
  show ?case
  proof (cases "lt y x")
    case True
    then show ?thesis
      using Cons mem weak_lessD(1)[OF assms(1) True] by auto
  next
    case False
    then show ?thesis
      using Cons.prems weak_lessD(2)[OF assms(1)] by auto
  qed
qed simp

lemma sorted_sort_slice:
  "weak_less lt \<Longrightarrow> sorted_wrt (\<lambda>a b. \<not> lt b a) (sort_slice lt xs)"
  by (induction xs) (auto intro: sorted_insert_by)

lemma sorted_wrt_unique:
  assumes "mset xs = mset ys" and "sorted_wrt le xs" and "sorted_wrt le ys"
    and "\<And>a b. a \<in> set xs \<Longrightarrow> b \<in> set xs \<Longrightarrow> le a b \<Longrightarrow> le b a \<Longrightarrow> a = b"
  shows "xs = ys"
  using assms
proof (induction xs arbitrary: ys)
  case (Cons x xs)
  from Cons.prems(1) obtain y zs where ys: "ys = y # zs"
    by (cases ys) auto
  have sets: "set (x # xs) = set ys"
    using Cons.prems(1) by (metis set_mset_mset)
  have "x = y"
  proof (rule ccontr)
    assume "x \<noteq> y"
    then have "y \<in> set xs" and "x \<in> set zs" using sets ys by auto
    with Cons.prems(2,3) ys have "le x y" and "le y x" by auto
    with Cons.prems(4) \<open>y \<in> set xs\<close> \<open>x \<noteq> y\<close> show False by auto
  qed
  with Cons ys show ?case by auto
qed simp

lemma sort_slice_unique:
  assumes "weak_less lt" and "mset ys = mset xs" and "sorted_wrt (\<lambda>a b. \<not> lt b a) ys"
    and "\<And>a b. a \<in> set xs \<Longrightarrow> b \<in> set xs \<Longrightarrow> \<not> lt a b \<Longrightarrow> \<not> lt b a \<Longrightarrow> a = b"
  shows "ys = sort_slice lt xs"
proof (rule sorted_wrt_unique[where le = "\<lambda>a b. \<not> lt b a"])
  show "a = b" if "a \<in> set ys" "b \<in> set ys" "\<not> lt b a" "\<not> lt a b" for a b
    using that assms(2,4) by (metis set_mset_mset)
qed (use assms(2,3) sorted_sort_slice[OF assms(1)] in auto)

section \<open>Run lengths\<close>

text \<open>
  The runs of a list, newest first: maximal blocks of equal neighbours with their lengths.
  A fixed-window counter sees the stream of slot numbers of its requests; its window count
  is the length of the newest run.
\<close>

fun add_run :: "('a \<times> nat) list \<Rightarrow> 'a \<Rightarrow> ('a \<times> nat) list" where
  "add_run [] s = [(s, 1)]"
| "add_run ((s', n) # rs) s = (if s = s' then (s', Suc n) # rs else (s, 1) # (s', n) # rs)"

definition runs_of :: "'a list \<Rightarrow> ('a \<times> nat) list" where
  "runs_of ss = foldl add_run [] ss"

lemma runs_of_Nil [simp]: "runs_of [] = []"
  by (simp add: runs_of_def)

lemma runs_of_snoc [simp]: "runs_of (ss @ [s]) = add_run (runs_of ss) s"
  by (simp add: runs_of_def)

lemma runs_of_single [simp]: "runs_of [s] = [(s, 1)]"
  by (simp add: runs_of_def)

lemma add_run_not_Nil [simp]: "add_run rs s \<noteq> []"
  by (cases "(rs, s)" rule: add_run.cases) auto

lemma runs_of_eq_Nil [simp]: "runs_of ss = [] \<longleftrightarrow> ss = []"
  by (cases ss rule: rev_cases) auto

lemma sum_add_run [simp]: "sum_list (map snd (add_run rs s)) = Suc (sum_list (map snd rs))"
  by (cases "(rs, s)" rule: add_run.cases) auto

lemma sum_runs_of: "sum_list (map snd (runs_of ss)) = length ss"
  by (induction ss rule: rev_induct) auto

lemma fst_add_run [simp]: "fst ` set (add_run rs s) = insert s (fst ` set rs)"
  by (cases "(rs, s)" rule: add_run.cases) auto

lemma fst_runs_of: "fst ` set (runs_of ss) = set ss"
  by (induction ss rule: rev_induct) auto

lemma hd_add_run [simp]: "fst (hd (add_run rs s)) = s"
  by (cases "(rs, s)" rule: add_run.cases) auto

lemma hd_runs_of: "ss \<noteq> [] \<Longrightarrow> fst (hd (runs_of ss)) = last ss"
  by (cases ss rule: rev_cases) auto

lemma add_run_pos:
  "\<forall>r \<in> set rs. 0 < snd r \<Longrightarrow> r \<in> set (add_run rs s) \<Longrightarrow> 0 < snd r"
  by (cases "(rs, s)" rule: add_run.cases) (auto split: if_splits)

lemma runs_of_pos: "r \<in> set (runs_of ss) \<Longrightarrow> 0 < snd r"
proof (induction ss arbitrary: r rule: rev_induct)
  case (snoc s ss)
  then show ?case using add_run_pos[of "runs_of ss" r s] by simp
qed simp

lemma length_runs_le:
  assumes "r \<in> set (runs_of ss)"
  shows "snd r \<le> length ss"
proof -
  have "snd r \<in> set (map snd (runs_of ss))" using assms by simp
  from member_le_sum_list[OF this] show ?thesis by (simp only: sum_runs_of)
qed

lemma sorted_le_last: "sorted xs \<Longrightarrow> x \<in> set xs \<Longrightarrow> x \<le> last xs"
  by (induction xs) (auto split: if_splits)

text \<open>When the stream is sorted (slots never go back) a slot has one run, as long as the
  slot occurs in the stream.\<close>

lemma add_run_new: "rs \<noteq> [] \<Longrightarrow> fst (hd rs) \<noteq> s \<Longrightarrow> add_run rs s = (s, 1) # rs"
  by (cases "(rs, s)" rule: add_run.cases) auto

lemma runs_of_sorted_key:
  fixes f :: "'a \<Rightarrow> 'b :: linorder"
  assumes "sorted (map f ss)" and inj: "inj f"
  shows "distinct (map fst (runs_of ss))"
    and "(s, n) \<in> set (runs_of ss) \<Longrightarrow> n = count_list ss s"
proof -
  have "distinct (map fst (runs_of ss)) \<and> (\<forall>s n. (s, n) \<in> set (runs_of ss) \<longrightarrow> n = count_list ss s)"
    using assms(1)
  proof (induction ss rule: rev_induct)
    case (snoc s ss)
    then have srt: "sorted (map f ss)" and le: "\<forall>x \<in> set ss. f x \<le> f s"
      by (auto simp: sorted_append)
    note IH = snoc.IH[OF srt]
    show ?case
    proof (cases "s \<in> set ss")
      case True
      then have ne: "ss \<noteq> []" by auto
      have "f (last ss) = f s"
        using ne le True sorted_le_last[OF srt, of "f s"] by (auto simp: last_map intro: antisym)
      then have "fst (hd (runs_of ss)) = s" using ne inj by (simp add: hd_runs_of inj_eq)
      then obtain n rs where rs: "runs_of ss = (s, n) # rs"
        using ne by (metis list.collapse prod.collapse runs_of_eq_Nil)
      with IH show ?thesis by (auto simp: image_iff)
    next
      case False
      have run: "runs_of (ss @ [s]) = (s, 1) # runs_of ss"
      proof (cases "ss = []")
        case False
        then have "fst (hd (runs_of ss)) \<noteq> s"
          using \<open>s \<notin> set ss\<close> by (auto simp: hd_runs_of)
        with False show ?thesis by (simp add: add_run_new)
      qed simp
      have "s \<notin> fst ` set (runs_of ss)" using False by (simp add: fst_runs_of)
      moreover have "count_list ss s = 0" using False by (simp add: count_list_0_iff)
      ultimately show ?thesis using IH unfolding run by (auto simp: image_iff)
    qed
  qed simp
  then show "distinct (map fst (runs_of ss))"
    and "(s, n) \<in> set (runs_of ss) \<Longrightarrow> n = count_list ss s" by blast+
qed

end
