(* ===== verification/Go_Base.thy ===== *)
theory Go_Base
  imports Ratelimit_Prelude "HOL-Library.Signed_Division" "HOL-Library.Sublist"
    "HOL-Library.Char_ord" "HOL-Library.List_Lexorder"
begin

text \<open>
  The part of the Go language and standard library the program uses, written out once:
  signed 64-bit integers (\<open>int64\<close>, and Go's \<^verbatim>\<open>int\<close> on the 64-bit platform the service is
  built for), run-time panics as values, slicing, \<^verbatim>\<open>strings\<close>, and \<^verbatim>\<open>strconv\<close>'s decimal and
  octal conversions. A Go string is a byte sequence, which is what \<open>string\<close> is here; its
  \<open><\<close> compares bytes.
\<close>

section \<open>Panics and errors\<close>

text \<open>Run-time panics the modelled code can raise. A function that can panic returns a sum:
  \<open>Inl\<close> the panic.\<close>

datatype go_panic = DivideByZero | SliceBounds

text \<open>Go \<^verbatim>\<open>error\<close> values the code distinguishes: go-redis' \<^verbatim>\<open>redis.Nil\<close> (key missing), any other
  go-redis error with its text, \<^verbatim>\<open>strconv\<close>'s two errors, and errors the program makes itself.\<close>

datatype go_err = RedisNil | RedisErr string | ErrSyntax | ErrRange | ErrMsg string

section \<open>Signed 64-bit integers\<close>

type_synonym int64 = "64 word"
type_synonym uint64 = "64 word"

abbreviation in_int64 :: "int \<Rightarrow> bool" where
  "in_int64 i \<equiv> - (2 ^ 63) \<le> i \<and> i < 2 ^ 63"

abbreviation max_int64 :: int where "max_int64 \<equiv> 2 ^ 63 - 1"
abbreviation min_int64 :: int where "min_int64 \<equiv> - (2 ^ 63)"

lemma sint_in_int64: "- (2 ^ 63) \<le> sint (a :: int64)" "sint (a :: int64) < 2 ^ 63"
  using sint_greater_eq[of a] sint_lt[of a] by simp_all

lemma sint_word_of_int [int64_simps]: "in_int64 i \<Longrightarrow> sint (word_of_int i :: int64) = i"
  by (simp add: sint_sbintrunc' signed_take_bit_int_eq_self)

lemma sint_of_nat [int64_simps]: "int n < 2 ^ 63 \<Longrightarrow> sint (word_of_nat n :: int64) = int n"
  using sint_word_of_int[of "int n"] by simp

lemma sint_add_in_range:
  "in_int64 (sint a + sint b) \<Longrightarrow> sint (a + b :: int64) = sint a + sint b"
  by (simp add: sint_word_add signed_take_bit_int_eq_self)

lemma sint_mult_in_range:
  "in_int64 (sint a * sint b) \<Longrightarrow> sint (a * b :: int64) = sint a * sint b"
  by (simp add: sint_word_mult signed_take_bit_int_eq_self)

lemma sint_inc: "sint a < 2 ^ 63 - 1 \<Longrightarrow> sint (a + 1 :: int64) = sint a + 1"
  using sint_in_int64(1)[of a] by (simp add: sint_add_in_range)

lemma sint_eq_iff: "(a :: int64) = b \<longleftrightarrow> sint a = sint b"
proof
  assume "sint a = sint b"
  then have "(word_of_int (sint a) :: int64) = word_of_int (sint b)" by simp
  then show "a = b" by simp
qed simp

lemma inj_sint: "inj (sint :: int64 \<Rightarrow> int)"
  by (simp add: inj_on_def sint_eq_iff)

lemmas [int64_simps] = word_sless_alt word_sle_eq

text \<open>Go's \<^verbatim>\<open>/\<close> on signed integers truncates towards zero and panics on a zero divisor.\<close>

definition go_div :: "int64 \<Rightarrow> int64 \<Rightarrow> go_panic + int64" where
  "go_div a b = (if b = 0 then Inl DivideByZero else Inr (word_of_int (sint a sdiv sint b)))"

lemma go_div_Inl [simp]: "go_div a b = Inl p \<longleftrightarrow> b = 0 \<and> p = DivideByZero"
  by (auto simp: go_div_def)

lemma go_div_0 [simp]: "go_div a 0 = Inl DivideByZero"
  by (simp add: go_div_def)

definition go_quot :: "int64 \<Rightarrow> int64 \<Rightarrow> int64" where
  "go_quot a b = word_of_int (sint a sdiv sint b)"

lemma go_div_nz: "b \<noteq> 0 \<Longrightarrow> go_div a b = Inr (go_quot a b)"
  by (simp add: go_div_def go_quot_def)

lemma sint_go_quot_nonneg:
  assumes "0 \<le> sint a" and "0 < sint b"
  shows "sint (go_quot a b) = sint a div sint b"
proof -
  have "sint a div sint b \<le> sint a"
    using assms zdiv_mono2[of "sint a" 1 "sint b"] by simp
  then have "in_int64 (sint a div sint b)"
    using assms sint_in_int64[of a] pos_imp_zdiv_nonneg_iff[of "sint b" "sint a"] by auto
  then show ?thesis
    using assms by (simp add: go_quot_def signed_divide_int_def sgn_if int64_simps)
qed

section \<open>Slices and strings\<close>

text \<open>\<^verbatim>\<open>xs[from:to]\<close> with \<^verbatim>\<open>int\<close> bounds.\<close>

definition go_slice :: "'a list \<Rightarrow> int64 \<Rightarrow> int64 \<Rightarrow> go_panic + 'a list" where
  "go_slice xs from to =
     (if 0 \<le> sint from \<and> sint from \<le> sint to \<and> sint to \<le> int (length xs)
      then Inr (take (nat (sint to - sint from)) (drop (nat (sint from)) xs))
      else Inl SliceBounds)"

text \<open>\<^verbatim>\<open>s[n:]\<close> for a length \<open>n\<close>.\<close>

definition go_slice_from :: "string \<Rightarrow> nat \<Rightarrow> go_panic + string" where
  "go_slice_from s n = (if n \<le> length s then Inr (drop n s) else Inl SliceBounds)"

definition HasPrefix :: "string \<Rightarrow> string \<Rightarrow> bool" where
  "HasPrefix s p \<longleftrightarrow> take (length p) s = p"

definition TrimPrefix :: "string \<Rightarrow> string \<Rightarrow> string" where
  "TrimPrefix s p = (if HasPrefix s p then drop (length p) s else s)"

fun Contains :: "string \<Rightarrow> string \<Rightarrow> bool" where
  "Contains [] sub = HasPrefix [] sub"
| "Contains (c # s) sub = (HasPrefix (c # s) sub \<or> Contains s sub)"

lemma HasPrefix_append [simp]: "HasPrefix (p @ s) p"
  by (simp add: HasPrefix_def)

lemma HasPrefix_iff: "HasPrefix s p \<longleftrightarrow> (\<exists>t. s = p @ t)"
  unfolding HasPrefix_def by (metis append_eq_conv_conj append_take_drop_id)

lemma TrimPrefix_append [simp]: "TrimPrefix (p @ s) p = s"
  by (simp add: TrimPrefix_def)

lemma go_slice_from_append [simp]: "go_slice_from (p @ s) (length p) = Inr s"
  by (simp add: go_slice_from_def)

lemma Contains_sublist: "Contains s sub \<longleftrightarrow> sublist sub s"
  by (induction s) (auto simp: HasPrefix_iff sublist_Cons_right prefix_def)

section \<open>strconv\<close>

text \<open>\<^verbatim>\<open>ParseUint\<close> with an explicit base up to 10 and a bit size. The source's two overflow tests
  (the \<^verbatim>\<open>cutoff\<close> before multiplying, the wrapped sum after) amount to the value passing the
  largest one of the bit size; that error is returned at once, before later characters are read.\<close>

definition digit_val :: "int \<Rightarrow> char \<Rightarrow> int option" where
  "digit_val base c =
     (let v = of_char c :: int in
      if 48 \<le> v \<and> v \<le> 57 \<and> v - 48 < base then Some (v - 48) else None)"

fun uint_loop :: "int \<Rightarrow> nat \<Rightarrow> int \<Rightarrow> string \<Rightarrow> go_err + int" where
  "uint_loop base bits acc [] = Inr acc"
| "uint_loop base bits acc (c # cs) =
     (case digit_val base c of
        None \<Rightarrow> Inl ErrSyntax
      | Some d \<Rightarrow>
          (if 2 ^ bits \<le> acc * base + d then Inl ErrRange
           else uint_loop base bits (acc * base + d) cs))"

definition ParseUint :: "int \<Rightarrow> nat \<Rightarrow> string \<Rightarrow> go_err + int" where
  "ParseUint base bits s = (if s = [] then Inl ErrSyntax else uint_loop base bits 0 s)"

text \<open>\<^verbatim>\<open>ParseInt(s, 10, 64)\<close> and \<^verbatim>\<open>Atoi\<close> return a value with the error: 0 on a syntax error, the
  nearest bound when out of range.\<close>

definition ParseInt_parts :: "bool \<Rightarrow> string \<Rightarrow> int64 \<times> go_err option" where
  "ParseInt_parts neg s =
     (case ParseUint 10 64 s of
        Inl ErrRange \<Rightarrow> (word_of_int (if neg then min_int64 else max_int64), Some ErrRange)
      | Inl e \<Rightarrow> (0, Some e)
      | Inr un \<Rightarrow>
          (if \<not> neg \<and> 2 ^ 63 \<le> un then (word_of_int max_int64, Some ErrRange)
           else if neg \<and> 2 ^ 63 < un then (word_of_int min_int64, Some ErrRange)
           else (if neg then - word_of_int un else word_of_int un, None)))"

definition ParseInt :: "string \<Rightarrow> int64 \<times> go_err option" where
  "ParseInt s =
     (case s of
        [] \<Rightarrow> (0, Some ErrSyntax)
      | c # cs \<Rightarrow>
          (if c = CHR ''+'' then ParseInt_parts False cs
           else if c = CHR ''-'' then ParseInt_parts True cs
           else ParseInt_parts False s))"

abbreviation Atoi :: "string \<Rightarrow> int64 \<times> go_err option" where "Atoi \<equiv> ParseInt"

text \<open>\<^verbatim>\<open>FormatInt(i, 10)\<close>, \<^verbatim>\<open>Itoa\<close>.\<close>

definition digit_char :: "int \<Rightarrow> char" where
  "digit_char d = char_of (48 + d)"

function dec_digits :: "int \<Rightarrow> string" where
  "dec_digits n = (if n < 10 then [digit_char n] else dec_digits (n div 10) @ [digit_char (n mod 10)])"
  by pat_completeness auto
termination
  by (relation "measure nat") auto

declare dec_digits.simps [simp del]

definition FormatInt :: "int64 \<Rightarrow> string" where
  "FormatInt i = (if sint i < 0 then CHR ''-'' # dec_digits (- sint i) else dec_digits (sint i))"

subsection \<open>Parsing what was printed\<close>

lemma of_char_digit [simp]: "0 \<le> d \<Longrightarrow> d < 10 \<Longrightarrow> (of_char (digit_char d) :: int) = 48 + d"
  by (simp add: digit_char_def)

lemma digit_val_char [simp]: "0 \<le> d \<Longrightarrow> d < 10 \<Longrightarrow> digit_val 10 (digit_char d) = Some d"
  by (simp add: digit_val_def)

lemma uint_loop_append:
  "uint_loop base bits acc (s @ t) =
     (case uint_loop base bits acc s of Inl e \<Rightarrow> Inl e | Inr a \<Rightarrow> uint_loop base bits a t)"
  by (induction s arbitrary: acc) (auto split: option.splits)

lemma uint_loop_dec_digits:
  "0 \<le> n \<Longrightarrow> n < 2 ^ bits \<Longrightarrow> uint_loop 10 bits 0 (dec_digits n) = Inr n"
proof (induction n rule: dec_digits.induct)
  case (1 n)
  show ?case
  proof (cases "n < 10")
    case True
    with 1 show ?thesis by (simp add: dec_digits.simps[of n])
  next
    case False
    have "n div 10 \<le> n" using "1.prems" by simp
    with 1 False have "uint_loop 10 bits 0 (dec_digits (n div 10)) = Inr (n div 10)"
      by simp
    moreover have "n div 10 * 10 + n mod 10 = n" by simp
    ultimately show ?thesis
      using False "1.prems" by (simp add: dec_digits.simps[of n] uint_loop_append)
  qed
qed

lemma dec_digits_not_Nil [simp]: "dec_digits n \<noteq> []"
  by (subst dec_digits.simps) simp

lemma hd_dec_digits: "0 \<le> n \<Longrightarrow> \<exists>d. 0 \<le> d \<and> d < 10 \<and> hd (dec_digits n) = digit_char d"
proof (induction n rule: dec_digits.induct)
  case (1 n)
  then show ?case by (cases "n < 10") (auto simp: dec_digits.simps[of n])
qed

lemma digit_char_no_sign:
  assumes "0 \<le> d" and "d < 10"
  shows "digit_char d \<noteq> CHR ''+''" and "digit_char d \<noteq> CHR ''-''"
proof -
  have neq: "digit_char d \<noteq> c" if "of_char c < (48 :: int)" for c
    using that assms by auto
  show "digit_char d \<noteq> CHR ''+''" and "digit_char d \<noteq> CHR ''-''" by (rule neq, simp)+
qed

lemma ParseUint_dec_digits:
  "0 \<le> n \<Longrightarrow> n < 2 ^ bits \<Longrightarrow> ParseUint 10 bits (dec_digits n) = Inr n"
  by (simp add: ParseUint_def uint_loop_dec_digits)

lemma ParseInt_FormatInt: "ParseInt (FormatInt i) = (i, None)"
proof (cases "sint i < 0")
  case True
  have n: "- sint i \<le> 2 ^ 63" using sint_in_int64(1)[of i] by simp
  with True show ?thesis
    by (simp add: FormatInt_def ParseInt_def ParseInt_parts_def ParseUint_dec_digits)
next
  case False
  let ?n = "sint i"
  have n: "?n < 2 ^ 63" using sint_in_int64(2)[of i] by simp
  obtain d where d: "0 \<le> d" "d < 10" "hd (dec_digits ?n) = digit_char d"
    using hd_dec_digits[of ?n] False by auto
  obtain c cs where cs: "dec_digits ?n = c # cs" by (cases "dec_digits ?n") auto
  have "c \<noteq> CHR ''+''" "c \<noteq> CHR ''-''" using d cs digit_char_no_sign[OF d(1,2)] by auto
  with False n cs ParseUint_dec_digits[of ?n 64] show ?thesis
    by (simp add: FormatInt_def ParseInt_def ParseInt_parts_def)
qed

lemma uint_loop_err: "uint_loop base bits acc s = Inl e \<Longrightarrow> e = ErrSyntax \<or> e = ErrRange"
  by (induction base bits acc s rule: uint_loop.induct) (auto split: option.splits if_splits)

lemma ParseInt_parts_err: "ParseInt_parts neg s = (v, Some e) \<Longrightarrow> e = ErrSyntax \<or> e = ErrRange"
  using uint_loop_err[of 10 64 0 s e]
  by (auto simp: ParseInt_parts_def ParseUint_def split: sum.splits go_err.splits if_splits)

lemma ParseInt_err: "ParseInt s = (v, Some e) \<Longrightarrow> e = ErrSyntax \<or> e = ErrRange"
  by (auto simp: ParseInt_def split: list.splits if_splits dest: ParseInt_parts_err)

end
