(* ===== verification/Go_Net.thy ===== *)
theory Go_Net
  imports Go_Base
begin

text \<open>
  The standard-library parsing the request handlers rely on: \<^verbatim>\<open>strings.TrimSpace\<close>,
  \<^verbatim>\<open>net.ParseIP\<close> (as a test: the code only compares its result with nil), and the query part of
  \<^verbatim>\<open>net/url\<close>: \<^verbatim>\<open>QueryUnescape\<close>, \<^verbatim>\<open>ParseQuery\<close>, \<^verbatim>\<open>Values.Get\<close>, \<^verbatim>\<open>Values.Encode\<close>'s escaping and
  \<^verbatim>\<open>url.Parse\<close> up to the raw query it yields.
\<close>

section \<open>Cutting and trimming\<close>

text \<open>\<^verbatim>\<open>strings.Cut\<close> at a one-byte separator: before, after, found.\<close>

fun cut_at :: "char \<Rightarrow> string \<Rightarrow> string \<times> string \<times> bool" where
  "cut_at c [] = ([], [], False)"
| "cut_at c (x # xs) =
     (if x = c then ([], xs, True) else (case cut_at c xs of (a, b, f) \<Rightarrow> (x # a, b, f)))"

lemma cut_at_length: "length (fst (snd (cut_at c s))) \<le> length s"
  by (induction s) (auto split: prod.splits)

lemma cut_at_append: "c \<notin> set a \<Longrightarrow> cut_at c (a @ c # b) = (a, b, True)"
  by (induction a) auto

lemma cut_at_none: "c \<notin> set a \<Longrightarrow> cut_at c a = (a, [], False)"
  by (induction a) auto

text \<open>\<^verbatim>\<open>unicode.IsSpace\<close>, as the UTF-8 encodings of the white space characters.\<close>

definition space_seqs :: "string list" where
  "space_seqs = map (map char_of)
     [[9 :: int], [10], [11], [12], [13], [32], [194, 133], [194, 160], [225, 154, 128],
      [226, 128, 128], [226, 128, 129], [226, 128, 130], [226, 128, 131], [226, 128, 132],
      [226, 128, 133], [226, 128, 134], [226, 128, 135], [226, 128, 136], [226, 128, 137],
      [226, 128, 138], [226, 128, 168], [226, 128, 169], [226, 128, 175], [226, 129, 159],
      [227, 128, 128]]"

definition leading_space :: "string list \<Rightarrow> string \<Rightarrow> nat option" where
  "leading_space seqs s = map_option length (find (HasPrefix s) seqs)"

lemma leading_space_pos:
  assumes "leading_space seqs s = Some n" and "[] \<notin> set seqs"
  shows "0 < n \<and> n \<le> length s"
  using assms by (auto simp: leading_space_def find_Some_iff HasPrefix_iff) (metis nth_mem)

fun trim_left :: "nat \<Rightarrow> string list \<Rightarrow> string \<Rightarrow> string" where
  "trim_left 0 seqs s = s"
| "trim_left (Suc fuel) seqs s =
     (case leading_space seqs s of None \<Rightarrow> s | Some n \<Rightarrow> trim_left fuel seqs (drop n s))"

text \<open>The length of the string bounds the number of characters trimmed.\<close>

definition TrimSpace :: "string \<Rightarrow> string" where
  "TrimSpace s =
     (let l = trim_left (length s) space_seqs s
      in rev (trim_left (length l) (map rev space_seqs) (rev l)))"

section \<open>net.ParseIP\<close>

abbreviation byte_of :: "char \<Rightarrow> int" where "byte_of \<equiv> of_char"

text \<open>\<^verbatim>\<open>netip.parseIPv4\<close>: octets completed so far, value and digits of the current one, whether
  the previous character was a dot.\<close>

fun ipv4_loop :: "nat \<Rightarrow> int \<Rightarrow> nat \<Rightarrow> string \<Rightarrow> bool" where
  "ipv4_loop pos val dig [] = (pos = 3 \<and> 0 < dig)"
| "ipv4_loop pos val dig (c # cs) =
     (case digit_val 10 c of
        Some d \<Rightarrow>
          (if dig = 1 \<and> val = 0 then False
           else if 255 < val * 10 + d then False
           else ipv4_loop pos (val * 10 + d) (Suc dig) cs)
      | None \<Rightarrow>
          (if c = CHR ''.'' then
             (if dig = 0 \<or> cs = [] then False
              else if pos = 3 then False
              else ipv4_loop (Suc pos) 0 0 cs)
           else False))"

definition parse_ipv4_ok :: "string \<Rightarrow> bool" where
  "parse_ipv4_ok s = ipv4_loop 0 0 0 s"

definition hex_val :: "char \<Rightarrow> int option" where
  "hex_val c =
     (let v = byte_of c in
      if 48 \<le> v \<and> v \<le> 57 then Some (v - 48)
      else if 97 \<le> v \<and> v \<le> 102 then Some (v - 87)
      else if 65 \<le> v \<and> v \<le> 70 then Some (v - 55)
      else None)"

abbreviation is_hex :: "char \<Rightarrow> bool" where "is_hex c \<equiv> hex_val c \<noteq> None"

text \<open>\<^verbatim>\<open>netip.parseIPv6\<close> after the leading ellipsis: \<open>i\<close> counts the bytes filled, \<open>ell\<close> whether
  \<^verbatim>\<open>::\<close> was seen, and the groups still allowed bound the loop. A group has one to four hexadecimal
  digits; a trailing IPv4 address may fill the last four bytes.\<close>

fun ipv6_loop :: "nat \<Rightarrow> bool \<Rightarrow> nat \<Rightarrow> string \<Rightarrow> bool" where
  "ipv6_loop 0 ell i s = (s = [] \<and> \<not> ell)"
| "ipv6_loop (Suc groups) ell i s =
     (let ds = takeWhile is_hex s; rest = dropWhile is_hex s in
      if ds = [] \<or> 4 < length ds then False
      else if rest \<noteq> [] \<and> hd rest = CHR ''.'' then
        (if \<not> ell \<and> i \<noteq> 12 then False
         else if 16 < i + 4 then False
         else parse_ipv4_ok s \<and> (if i + 4 < 16 then ell else \<not> ell))
      else if rest = [] then (if i + 2 < 16 then ell else \<not> ell)
      else if hd rest \<noteq> CHR '':'' then False
      else if tl rest = [] then False
      else if hd (tl rest) = CHR '':'' then
        (if ell then False
         else if tl (tl rest) = [] then i + 2 < 16
         else ipv6_loop groups True (i + 2) (tl (tl rest)))
      else ipv6_loop groups ell (i + 2) (tl rest))"

text \<open>\<^verbatim>\<open>net.ParseIP\<close> accepts no zone.\<close>

definition parse_ipv6_ok :: "string \<Rightarrow> bool" where
  "parse_ipv6_ok s =
     (if CHR ''%'' \<in> set s then False
      else if HasPrefix s ''::'' then
        (if drop 2 s = [] then True else ipv6_loop 8 True 0 (drop 2 s))
      else ipv6_loop 8 False 0 s)"

text \<open>\<^verbatim>\<open>netip.ParseAddr\<close> chooses by the first of the three characters it meets.\<close>

fun ParseIP_ok_from :: "string \<Rightarrow> string \<Rightarrow> bool" where
  "ParseIP_ok_from s [] = False"
| "ParseIP_ok_from s (c # cs) =
     (if c = CHR ''.'' then parse_ipv4_ok s
      else if c = CHR '':'' then parse_ipv6_ok s
      else if c = CHR ''%'' then False
      else ParseIP_ok_from s cs)"

definition ParseIP_ok :: "string \<Rightarrow> bool" where
  "ParseIP_ok s = ParseIP_ok_from s s"

text \<open>The text of an address: hexadecimal digits, colons and dots, of bounded length.\<close>

lemma digit_valD: "digit_val 10 c = Some d \<Longrightarrow> 0 \<le> d \<and> d < 10 \<and> is_hex c"
  by (auto simp: digit_val_def hex_val_def Let_def split: if_splits)

definition addr_char :: "char \<Rightarrow> bool" where
  "addr_char c \<longleftrightarrow> is_hex c \<or> c = CHR '':'' \<or> c = CHR ''.''"

lemma ipv4_loop_shape:
  "ipv4_loop pos val dig s \<Longrightarrow> pos \<le> 3 \<Longrightarrow> 0 \<le> val \<Longrightarrow>
   (dig = 0 \<or> dig = 1 \<or> dig = 2 \<and> 10 \<le> val \<or> dig = 3 \<and> 100 \<le> val) \<Longrightarrow> (dig = 0 \<longrightarrow> val = 0) \<Longrightarrow>
   list_all addr_char s \<and> length s + 4 * pos + dig \<le> 15"
proof (induction pos val dig s rule: ipv4_loop.induct)
  case (2 pos val dig c cs)
  show ?case
  proof (cases "digit_val 10 c")
    case None
    with 2 show ?thesis by (auto simp: addr_char_def split: if_splits)
  next
    case (Some d)
    note d = digit_valD[OF Some]
    have *: "ipv4_loop pos (val * 10 + d) (Suc dig) cs" "val * 10 + d \<le> 255" "\<not> (dig = 1 \<and> val = 0)"
      using 2(3) Some by (auto split: if_splits)
    have **: "Suc dig = 1 \<or> Suc dig = 2 \<and> 10 \<le> val * 10 + d \<or> Suc dig = 3 \<and> 100 \<le> val * 10 + d"
      using 2(5,6) * d by auto
    have "list_all addr_char cs \<and> length cs + 4 * pos + Suc dig \<le> 15"
      using 2(2)[OF Some] * ** 2(4,5) d by auto
    moreover have "addr_char c" using d by (simp add: addr_char_def)
    ultimately show ?thesis by simp
  qed
qed auto

lemma parse_ipv4_shape: "parse_ipv4_ok s \<Longrightarrow> list_all addr_char s \<and> length s \<le> 15"
  using ipv4_loop_shape[of 0 0 0 s] by (simp add: parse_ipv4_ok_def)

lemma list_all_takeWhile_hex: "list_all addr_char (takeWhile is_hex s)"
  by (auto simp: list_all_iff addr_char_def dest: set_takeWhileD)

lemma list_all_split: "list_all addr_char (dropWhile is_hex s) \<Longrightarrow> list_all addr_char s"
  using list_all_takeWhile_hex[of s] by (metis list_all_append takeWhile_dropWhile_id)

lemma ipv6_loop_shape:
  "ipv6_loop g ell i s \<Longrightarrow> list_all addr_char s \<and> length s \<le> 6 * g + 15"
proof (induction g arbitrary: ell i s)
  case (Suc g)
  let ?ds = "takeWhile is_hex s" and ?rest = "dropWhile is_hex s"
  have len: "length s = length ?ds + length ?rest"
    by (metis length_append takeWhile_dropWhile_id)
  consider (dot) "?rest \<noteq> []" "hd ?rest = CHR ''.''" | (nil) "?rest = []"
    | (col) "?rest \<noteq> []" "hd ?rest \<noteq> CHR ''.''" by blast
  then show ?case
  proof cases
    case dot
    with Suc.prems have "parse_ipv4_ok s" by (auto simp: Let_def split: if_splits)
    then show ?thesis using parse_ipv4_shape[of s] by auto
  next
    case nil
    with Suc.prems have "length ?ds \<le> 4" by (auto simp: Let_def split: if_splits)
    moreover have "length ?rest = 0" by (simp only: nil list.size)
    moreover have "list_all addr_char s" by (rule list_all_split) (simp only: nil list.pred_inject)
    ultimately show ?thesis using len by linarith
  next
    case col
    with Suc.prems have *: "length ?ds \<le> 4" "hd ?rest = CHR '':''" "tl ?rest \<noteq> []"
      by (auto simp: Let_def split: if_splits)
    obtain r where r: "?rest = CHR '':'' # r" "r \<noteq> []" using col(1) * by (cases ?rest) auto
    have "list_all addr_char r \<and> length r \<le> 6 * g + 16"
    proof (cases "hd r = CHR '':''")
      case True
      then obtain r' where r': "r = CHR '':'' # r'" using r(2) by (cases r) auto
      show ?thesis
      proof (cases "r' = []")
        case False
        with Suc.prems * r(1) r' col have "ipv6_loop g True (i + 2) r'" by (auto simp: Let_def split: if_splits)
        then have "list_all addr_char r' \<and> length r' \<le> 6 * g + 15" by (rule Suc.IH)
        with r' show ?thesis by (auto simp: addr_char_def)
      qed (simp add: r' addr_char_def)
    next
      case False
      with Suc.prems * r col have "ipv6_loop g ell (i + 2) r" by (auto simp: Let_def split: if_splits)
      then have "list_all addr_char r \<and> length r \<le> 6 * g + 15" by (rule Suc.IH)
      then show ?thesis by simp
    qed
    moreover have "length ?rest = Suc (length r)" using r by simp
    moreover have "list_all addr_char s" if "list_all addr_char r"
      by (rule list_all_split) (use that r in \<open>simp add: addr_char_def\<close>)
    ultimately show ?thesis using len * by auto
  qed
qed (simp add: addr_char_def)

lemma ParseIP_ok_shape:
  assumes "ParseIP_ok s"
  shows "s \<noteq> [] \<and> list_all addr_char s \<and> length s \<le> 65"
proof -
  have from_shape: "parse_ipv4_ok s \<or> parse_ipv6_ok s" if "ParseIP_ok_from s cs" for cs
    using that by (induction cs) (auto split: if_splits)
  from assms have "parse_ipv4_ok s \<or> parse_ipv6_ok s" and "s \<noteq> []"
    using from_shape by (auto simp: ParseIP_ok_def)
  moreover have ?thesis if "parse_ipv6_ok s"
  proof (cases "HasPrefix s ''::''")
    case True
    then obtain t where t: "s = ''::'' @ t" by (auto simp: HasPrefix_iff)
    with that ipv6_loop_shape[of 8 True 0 t] show ?thesis
      by (auto simp: parse_ipv6_ok_def addr_char_def HasPrefix_iff split: if_splits)
  next
    case False
    with that ipv6_loop_shape[of 8 False 0 s] \<open>s \<noteq> []\<close> show ?thesis
      by (auto simp: parse_ipv6_ok_def split: if_splits)
  qed
  ultimately show ?thesis using parse_ipv4_shape[of s] by auto
qed

section \<open>net/url queries\<close>

fun QueryUnescape :: "string \<Rightarrow> string option" where
  "QueryUnescape [] = Some []"
| "QueryUnescape (c # cs) =
     (if c = CHR ''%'' then
        (case cs of
           a # b # r \<Rightarrow>
             (case (hex_val a, hex_val b) of
                (Some x, Some y) \<Rightarrow> map_option (Cons (char_of (16 * x + y))) (QueryUnescape r)
              | _ \<Rightarrow> None)
         | _ \<Rightarrow> None)
      else if c = CHR ''+'' then map_option (Cons (CHR '' '')) (QueryUnescape cs)
      else map_option (Cons c) (QueryUnescape cs))"

text \<open>One \<^verbatim>\<open>&\<close>-separated setting: none when it holds a semicolon, is empty, or does not unescape.\<close>

definition query_setting :: "string \<Rightarrow> (string \<times> string) option" where
  "query_setting s =
     (if CHR '';'' \<in> set s \<or> s = [] then None
      else (case cut_at (CHR ''='') s of
              (k, v, _) \<Rightarrow>
                (case (QueryUnescape k, QueryUnescape v) of
                   (Some k', Some v') \<Rightarrow> Some (k', v')
                 | _ \<Rightarrow> None)))"

fun split_on :: "char \<Rightarrow> string \<Rightarrow> string list" where
  "split_on c [] = [[]]"
| "split_on c (x # xs) =
     (if x = c then [] # split_on c xs
      else (case split_on c xs of [] \<Rightarrow> [[x]] | y # ys \<Rightarrow> (x # y) # ys))"

text \<open>\<^verbatim>\<open>URL.Query()\<close>: the settings in order, malformed ones dropped.\<close>

definition ParseQuery :: "string \<Rightarrow> (string \<times> string) list" where
  "ParseQuery q = List.map_filter query_setting (split_on (CHR ''&'') q)"

definition query_get :: "(string \<times> string) list \<Rightarrow> string \<Rightarrow> string" where
  "query_get vs k = (case map_of vs k of None \<Rightarrow> [] | Some v \<Rightarrow> v)"

text \<open>\<^verbatim>\<open>QueryEscape\<close>: unreserved bytes stay, a space becomes \<^verbatim>\<open>+\<close>, the rest percent-encoded.\<close>

definition unreserved :: "char \<Rightarrow> bool" where
  "unreserved c =
     (let v = byte_of c in
      48 \<le> v \<and> v \<le> 57 \<or> 65 \<le> v \<and> v \<le> 90 \<or> 97 \<le> v \<and> v \<le> 122
      \<or> v = 45 \<or> v = 46 \<or> v = 95 \<or> v = 126)"

definition hex_digit :: "int \<Rightarrow> char" where
  "hex_digit n = (if n < 10 then char_of (48 + n) else char_of (55 + n))"

definition escape_char :: "char \<Rightarrow> string" where
  "escape_char c =
     (if unreserved c then [c]
      else if c = CHR '' '' then ''+''
      else [CHR ''%'', hex_digit (byte_of c div 16), hex_digit (byte_of c mod 16)])"

definition QueryEscape :: "string \<Rightarrow> string" where
  "QueryEscape s = concat (map escape_char s)"

section \<open>url.Parse\<close>

text \<open>The program parses the \<^verbatim>\<open>X-Original-URI\<close> header with \<^verbatim>\<open>url.Parse\<close> and reads only the query
  of the result, so the model keeps the raw query, or nothing where \<^verbatim>\<open>Parse\<close> returns an error.\<close>

fun pct_ok :: "string \<Rightarrow> bool" where
  "pct_ok [] = True"
| "pct_ok (c # cs) =
     (if c = CHR ''%'' then
        (case cs of a # b # r \<Rightarrow> is_hex a \<and> is_hex b \<and> pct_ok r | _ \<Rightarrow> False)
      else pct_ok cs)"

text \<open>Bytes allowed unescaped in a host.\<close>

definition host_char_ok :: "int \<Rightarrow> bool" where
  "host_char_ok v \<longleftrightarrow>
     128 \<le> v \<or> unreserved (char_of v)
     \<or> v \<in> set (map byte_of (CHR 0x27 # CHR 0x22 # ''!$&()*+,;=:[]<>''))"

fun host_ok :: "bool \<Rightarrow> string \<Rightarrow> bool" where
  "host_ok zone [] = True"
| "host_ok zone (c # cs) =
     (if c = CHR ''%'' then
        (case cs of
           a # b # r \<Rightarrow>
             (case (hex_val a, hex_val b) of
                (Some x, Some y) \<Rightarrow>
                  (if [a, b] = ''25'' then True
                   else if zone then (let v = 16 * x + y in v = 32 \<or> (128 > v \<and> host_char_ok v))
                   else 8 \<le> x) \<and> host_ok zone r
              | _ \<Rightarrow> False)
         | _ \<Rightarrow> False)
      else host_char_ok (byte_of c) \<and> host_ok zone cs)"

definition is_digit :: "char \<Rightarrow> bool" where "is_digit c \<longleftrightarrow> digit_val 10 c \<noteq> None"

definition valid_port :: "string \<Rightarrow> bool" where
  "valid_port p = (case p of [] \<Rightarrow> True | c # cs \<Rightarrow> c = CHR '':'' \<and> list_all is_digit cs)"

text \<open>Cut at the last occurrence of a byte.\<close>

definition cut_last :: "char \<Rightarrow> string \<Rightarrow> string \<times> string \<times> bool" where
  "cut_last c s = (case cut_at c (rev s) of (a, b, f) \<Rightarrow> (rev b, rev a, f))"

fun find_zone :: "string \<Rightarrow> string \<Rightarrow> (string \<times> string) option" where
  "find_zone acc [] = None"
| "find_zone acc (c # cs) =
     (if HasPrefix (c # cs) ''%25'' then Some (rev acc, c # cs) else find_zone (c # acc) cs)"

definition parse_host_ok :: "string \<Rightarrow> bool" where
  "parse_host_ok h =
     (if HasPrefix h ''['' then
        (case cut_last (CHR '']'') h of
           (inside, port, found) \<Rightarrow>
             found \<and> valid_port port
             \<and> (case find_zone [] inside of
                  Some (h1, z) \<Rightarrow> host_ok False h1 \<and> host_ok True z \<and> host_ok False (CHR '']'' # port)
                | None \<Rightarrow> host_ok False h))
      else
        (case cut_last (CHR '':'') h of
           (_, port, found) \<Rightarrow> (found \<longrightarrow> valid_port (CHR '':'' # port)) \<and> host_ok False h))"

definition valid_userinfo :: "string \<Rightarrow> bool" where
  "valid_userinfo u =
     list_all (\<lambda>c. unreserved c \<or> c \<in> set (CHR 0x27 # '':!$&()*+,;=%@'')) u"

definition parse_authority_ok :: "string \<Rightarrow> bool" where
  "parse_authority_ok a =
     (case cut_last (CHR ''@'') a of
        (user, host, found) \<Rightarrow>
          (if found then
             parse_host_ok host \<and> valid_userinfo user
             \<and> (case cut_at (CHR '':'') user of (n, pw, _) \<Rightarrow> pct_ok n \<and> pct_ok pw)
           else parse_host_ok a))"

text \<open>\<^verbatim>\<open>getScheme\<close>: nothing on the error of a leading colon, else scheme (possibly empty) and rest.\<close>

definition is_alpha :: "char \<Rightarrow> bool" where
  "is_alpha c = (let v = byte_of c in 65 \<le> v \<and> v \<le> 90 \<or> 97 \<le> v \<and> v \<le> 122)"

fun scheme_loop :: "string \<Rightarrow> string \<Rightarrow> string \<Rightarrow> (string \<times> string) option" where
  "scheme_loop whole acc [] = Some ([], whole)"
| "scheme_loop whole acc (c # cs) =
     (if is_alpha c then scheme_loop whole (c # acc) cs
      else if is_digit c \<or> c \<in> set ''+-.'' then
        (if acc = [] then Some ([], whole) else scheme_loop whole (c # acc) cs)
      else if c = CHR '':'' then (if acc = [] then None else Some (rev acc, cs))
      else Some ([], whole))"

definition has_ctl_byte :: "string \<Rightarrow> bool" where
  "has_ctl_byte s = list_ex (\<lambda>c. byte_of c < 32 \<or> byte_of c = 127) s"

definition url_parse_rest :: "string \<Rightarrow> string \<Rightarrow> bool" where
  "url_parse_rest scheme rest =
     (if \<not> HasPrefix rest ''/'' \<and> scheme \<noteq> [] then True
      else if \<not> HasPrefix rest ''/'' \<and> CHR '':'' \<in> set (fst (cut_at (CHR ''/'') rest)) then False
      else if (scheme \<noteq> [] \<or> \<not> HasPrefix rest ''///'') \<and> HasPrefix rest ''//'' then
        (case cut_at (CHR ''/'') (drop 2 rest) of
           (auth, path, found) \<Rightarrow> parse_authority_ok auth \<and> pct_ok path)
      else pct_ok rest)"

definition url_Parse :: "string \<Rightarrow> string option" where
  "url_Parse raw =
     (case cut_at (CHR ''#'') raw of
        (u, frag, _) \<Rightarrow>
          (if has_ctl_byte u then None
           else if u = ''*'' then (if pct_ok frag then Some [] else None)
           else
             (case scheme_loop u [] u of
                None \<Rightarrow> None
              | Some (scheme, rest) \<Rightarrow>
                  (case cut_at (CHR ''?'') rest of
                     (path, query, _) \<Rightarrow>
                       (if url_parse_rest scheme path \<and> pct_ok frag then Some query else None)))))"

end
