(* ===== verification/Go_Time.thy ===== *)
theory Go_Time
  imports Go_Base
begin

text \<open>
  \<^verbatim>\<open>time.Time\<close> and \<^verbatim>\<open>time.Duration\<close> as the program uses them. A time carries a wall clock reading
  (Unix seconds and nanoseconds) and, when it comes from \<^verbatim>\<open>time.Now\<close>, a monotonic clock reading
  too. \<^verbatim>\<open>Unix()\<close> reads the wall clock; \<^verbatim>\<open>Sub\<close>, \<^verbatim>\<open>Equal\<close> and \<^verbatim>\<open>After\<close> use the monotonic readings
  when both operands have one. A duration is an \<open>int64\<close> of nanoseconds.
\<close>

type_synonym duration = int64

record go_time =
  t_sec :: int64
  t_nsec :: nat
  t_mono :: "int64 option"

definition time_Unix :: "go_time \<Rightarrow> int64" where
  "time_Unix t = t_sec t"

text \<open>\<^verbatim>\<open>time.Unix(sec, 0)\<close>: no monotonic reading.\<close>

definition unix_time :: "int64 \<Rightarrow> go_time" where
  "unix_time s = \<lparr>t_sec = s, t_nsec = 0, t_mono = None\<rparr>"

text \<open>The wall clock in nanoseconds, and the zero time (January 1, year 1).\<close>

definition wall_ns :: "go_time \<Rightarrow> int" where
  "wall_ns t = sint (t_sec t) * 1000000000 + int (t_nsec t)"

definition zero_time :: go_time where
  "zero_time = \<lparr>t_sec = -62135596800, t_nsec = 0, t_mono = None\<rparr>"

definition time_IsZero :: "go_time \<Rightarrow> bool" where
  "time_IsZero t \<longleftrightarrow> t_sec t = -62135596800 \<and> t_nsec t = 0"

text \<open>The difference both kinds of reading give, exact; \<^verbatim>\<open>Sub\<close> saturates it.\<close>

definition time_diff :: "go_time \<Rightarrow> go_time \<Rightarrow> int" where
  "time_diff t u =
     (case (t_mono t, t_mono u) of
        (Some a, Some b) \<Rightarrow> sint a - sint b
      | _ \<Rightarrow> wall_ns t - wall_ns u)"

definition saturate :: "int \<Rightarrow> int64" where
  "saturate i = word_of_int (max min_int64 (min max_int64 i))"

definition time_Sub :: "go_time \<Rightarrow> go_time \<Rightarrow> duration" where
  "time_Sub t u = saturate (time_diff t u)"

definition time_Equal :: "go_time \<Rightarrow> go_time \<Rightarrow> bool" where
  "time_Equal t u \<longleftrightarrow> time_diff t u = 0"

definition time_After :: "go_time \<Rightarrow> go_time \<Rightarrow> bool" where
  "time_After t u \<longleftrightarrow> 0 < time_diff t u"

definition second_ns :: int64 where "second_ns = 1000000000"

lemma sint_saturate [int64_simps]: "sint (saturate i) = max min_int64 (min max_int64 i)"
  by (simp add: saturate_def sint_word_of_int)

lemma time_diff_unix [simp]: "time_diff (unix_time a) (unix_time b) = (sint a - sint b) * 1000000000"
  by (simp add: time_diff_def unix_time_def wall_ns_def algebra_simps)

lemma time_Unix_unix_time [simp]: "time_Unix (unix_time s) = s"
  by (simp add: time_Unix_def unix_time_def)

lemma time_Equal_unix [simp]: "time_Equal (unix_time a) (unix_time b) \<longleftrightarrow> a = b"
  by (simp add: time_Equal_def sint_eq_iff)

lemma time_After_unix [simp]: "time_After (unix_time a) (unix_time b) \<longleftrightarrow> sint b < sint a"
  by (simp add: time_After_def)

end
