(* ===== verification/Store.thy ===== *)
theory Store
  imports Go_Net Go_Time
begin

text \<open>
  \<^verbatim>\<open>internal/store/redis.go\<close>: the store over three Redis databases. The go-redis client and the
  server behind it are not part of the program: a client is a record of command functions over a
  state \<open>'r\<close> of the outside world (server, network, clock), each returning a result or an error.
  Every theorem holds for all such functions, or names what Redis documents of them as a
  hypothesis. The store's own state is its health flag and the log lines it wrote. A context with
  its deadline is part of the world: an expired deadline is one of the errors a command returns.
\<close>

section \<open>The Redis client interface\<close>

datatype redis_cmd = HSet string "(string \<times> int64) list" | Expire string duration

record 'r redis_client =
  rc_hget :: "string \<Rightarrow> string \<Rightarrow> 'r \<Rightarrow> (go_err + string) \<times> 'r"
  rc_exists :: "string \<Rightarrow> 'r \<Rightarrow> (go_err + int64) \<times> 'r"
  rc_txexec :: "redis_cmd list \<Rightarrow> 'r \<Rightarrow> go_err option \<times> 'r"
  rc_scan :: "uint64 \<Rightarrow> string \<Rightarrow> int64 \<Rightarrow> 'r \<Rightarrow> (go_err + string list \<times> uint64) \<times> 'r"
  rc_hgetall :: "string \<Rightarrow> 'r \<Rightarrow> (go_err + (string \<times> string) list) \<times> 'r"
  rc_ttl :: "string \<Rightarrow> 'r \<Rightarrow> duration \<times> 'r"
  rc_dbsize :: "'r \<Rightarrow> (go_err + int64) \<times> 'r"
  rc_ping :: "'r \<Rightarrow> go_err option \<times> 'r"
  rc_del :: "string list \<Rightarrow> 'r \<Rightarrow> (go_err + int64) \<times> 'r"
  rc_flushdb :: "'r \<Rightarrow> go_err option \<times> 'r"

section \<open>The store\<close>

text \<open>The three clients, one per logical database, with the database number \<^verbatim>\<open>New\<close> gives each.\<close>

definition DBLimits :: nat where "DBLimits = 1"
definition DBAbuseKey :: nat where "DBAbuseKey = 2"
definition DBAbuseIP :: nat where "DBAbuseIP = 3"

record 'r clients =
  limits :: "'r redis_client"
  abuseK :: "'r redis_client"
  abuseIP :: "'r redis_client"

datatype store_log =
    RedisRecovered string
  | RedisUnhealthy string go_err
  | LimitUnparseable string string go_err
  | FieldUnparseable string string string go_err

record 'r store =
  st_healthy :: bool
  st_log :: "store_log list"
  st_redis :: 'r

text \<open>\<^verbatim>\<open>New\<close>: \<open>mk\<close> is the client constructor for a database number. The dial, read and write timeouts and
  the pool size \<^verbatim>\<open>New\<close> passes are constants of that constructor: they bound how long a command may
  take, and what a client answers when they pass is one of its errors. The store starts healthy.\<close>

definition store_New :: "(nat \<Rightarrow> 'r redis_client) \<Rightarrow> 'r \<Rightarrow> 'r clients \<times> 'r store" where
  "store_New mk r =
     (\<lparr>limits = mk DBLimits, abuseK = mk DBAbuseKey, abuseIP = mk DBAbuseIP\<rparr>,
      \<lparr>st_healthy = True, st_log = [], st_redis = r\<rparr>)"

definition IsHealthy :: "'r store \<Rightarrow> bool" where
  "IsHealthy s = st_healthy s"

definition on_redis :: "('r \<Rightarrow> 'a \<times> 'r) \<Rightarrow> 'r store \<Rightarrow> 'a \<times> 'r store" where
  "on_redis f s = (case f (st_redis s) of (a, r) \<Rightarrow> (a, s\<lparr>st_redis := r\<rparr>))"

definition store_logs :: "store_log \<Rightarrow> 'r store \<Rightarrow> 'r store" where
  "store_logs e s = s\<lparr>st_log := st_log s @ [e]\<rparr>"

definition observe :: "string \<Rightarrow> go_err option \<Rightarrow> 'r store \<Rightarrow> 'r store" where
  "observe op err s =
     (case err of
        Some e \<Rightarrow>
          (if e = RedisNil then
             (if \<not> st_healthy s then store_logs (RedisRecovered op) (s\<lparr>st_healthy := True\<rparr>) else s)
           else if st_healthy s
             then store_logs (RedisUnhealthy op e) (s\<lparr>st_healthy := False\<rparr>) else s)
      | None \<Rightarrow>
          (if \<not> st_healthy s then store_logs (RedisRecovered op) (s\<lparr>st_healthy := True\<rparr>) else s))"

fun err_of :: "go_err + 'a \<Rightarrow> go_err option" where
  "err_of (Inl e) = Some e"
| "err_of (Inr _) = None"

section \<open>Lookups\<close>

definition limit_key :: "string \<Rightarrow> string" where "limit_key apiKey = ''rate:limit:'' @ apiKey"

definition LookupLimit ::
  "'r clients \<Rightarrow> string \<Rightarrow> 'r store \<Rightarrow> (int64 \<times> bool \<times> go_err option) \<times> 'r store" where
  "LookupLimit c apiKey s =
     (let (r, s1) = on_redis (rc_hget (limits c) (limit_key apiKey) ''limit'') s;
          s2 = observe ''LookupLimit'' (err_of r) s1
      in case r of
           Inl e \<Rightarrow> (if e = RedisNil then ((0, False, None), s2) else ((0, False, Some e), s2))
         | Inr v \<Rightarrow>
             (case ParseInt v of
                (_, Some perr) \<Rightarrow>
                  ((0, False, Some perr), store_logs (LimitUnparseable (limit_key apiKey) v perr) s2)
              | (limit, None) \<Rightarrow> ((limit, True, None), s2)))"

definition LimitExists :: "'r clients \<Rightarrow> string \<Rightarrow> 'r store \<Rightarrow> (go_err + bool) \<times> 'r store" where
  "LimitExists c apiKey s =
     (let (r, s1) = on_redis (rc_exists (limits c) (limit_key apiKey)) s;
          s2 = observe ''LimitExists'' (err_of r) s1
      in (case r of Inl e \<Rightarrow> Inl e | Inr n \<Rightarrow> Inr (0 <s n), s2))"

section \<open>Abuse records\<close>

record abuse_record =
  arFirstSeen :: int64
  arLastSeen :: int64
  arTotalRequests :: int64
  arBurstHits :: int64
  arAbuseHits :: int64

definition abuse_fields :: "abuse_record \<Rightarrow> (string \<times> int64) list" where
  "abuse_fields r =
     [(''first_seen'', arFirstSeen r), (''last_seen'', arLastSeen r),
      (''total_requests'', arTotalRequests r), (''burst_hits'', arBurstHits r),
      (''abuse_hits'', arAbuseHits r)]"

definition upsertAbuse ::
  "'r redis_client \<Rightarrow> string \<Rightarrow> abuse_record \<Rightarrow> duration \<Rightarrow> 'r store \<Rightarrow> go_err option \<times> 'r store" where
  "upsertAbuse c key r ttl s =
     (let (err, s1) = on_redis (rc_txexec c [HSet key (abuse_fields r), Expire key ttl]) s
      in (err, observe ''UpsertAbuse'' err s1))"

definition abuse_key_prefix :: string where "abuse_key_prefix = ''rate:abuse:key:''"
definition abuse_ip_prefix :: string where "abuse_ip_prefix = ''rate:abuse:ip:''"

definition UpsertAbuseKey ::
  "'r clients \<Rightarrow> string \<Rightarrow> abuse_record \<Rightarrow> duration \<Rightarrow> 'r store \<Rightarrow> go_err option \<times> 'r store" where
  "UpsertAbuseKey c apiKey r ttl s = upsertAbuse (abuseK c) (abuse_key_prefix @ apiKey) r ttl s"

definition UpsertAbuseIP ::
  "'r clients \<Rightarrow> string \<Rightarrow> abuse_record \<Rightarrow> duration \<Rightarrow> 'r store \<Rightarrow> go_err option \<times> 'r store" where
  "UpsertAbuseIP c ip r ttl s = upsertAbuse (abuseIP c) (abuse_ip_prefix @ ip) r ttl s"

section \<open>Scans\<close>

text \<open>\<^verbatim>\<open>parseInt64\<close>: 0 and a log line when a field does not parse.\<close>

definition parseInt64 :: "string \<Rightarrow> string \<Rightarrow> string \<Rightarrow> 'r store \<Rightarrow> int64 \<times> 'r store" where
  "parseInt64 key field raw s =
     (case ParseInt raw of
        (_, Some err) \<Rightarrow> (0, store_logs (FieldUnparseable key field raw err) s)
      | (v, None) \<Rightarrow> (v, s))"

text \<open>A Go map read: the empty string for a missing field.\<close>

definition field :: "(string \<times> string) list \<Rightarrow> string \<Rightarrow> string" where
  "field vals f = (case map_of vals f of None \<Rightarrow> [] | Some v \<Rightarrow> v)"

record abuse_entry =
  aeKey :: string
  aeFirstSeen :: go_time
  aeLastSeen :: go_time
  aeTotalRequests :: int64
  aeBurstHits :: int64
  aeAbuseHits :: int64
  aeTTL :: duration

record limit_entry =
  leAPIKey :: string
  leLimit :: int64
  leCreatedAt :: go_time

datatype 'a scanned = ScanPanic go_panic | ScanErr go_err | Scanned 'a

definition abuse_entry_of ::
  "string \<Rightarrow> string \<Rightarrow> (string \<times> string) list \<Rightarrow> duration \<Rightarrow> 'r store \<Rightarrow> abuse_entry \<times> 'r store" where
  "abuse_entry_of k ident vals ttl s =
     (let (fs, s1) = parseInt64 k ''first_seen'' (field vals ''first_seen'') s;
          (ls, s2) = parseInt64 k ''last_seen'' (field vals ''last_seen'') s1;
          (tr, s3) = parseInt64 k ''total_requests'' (field vals ''total_requests'') s2;
          (bh, s4) = parseInt64 k ''burst_hits'' (field vals ''burst_hits'') s3;
          (ah, s5) = parseInt64 k ''abuse_hits'' (field vals ''abuse_hits'') s4
      in (\<lparr>aeKey = ident, aeFirstSeen = unix_time fs, aeLastSeen = unix_time ls,
           aeTotalRequests = tr, aeBurstHits = bh, aeAbuseHits = ah, aeTTL = ttl\<rparr>, s5))"

text \<open>One page of keys. A key whose hash cannot be read is skipped without a word.\<close>

fun scan_abuse_keys ::
  "'r redis_client \<Rightarrow> string \<Rightarrow> string list \<Rightarrow> abuse_entry list \<Rightarrow> 'r store
     \<Rightarrow> (go_panic + abuse_entry list) \<times> 'r store" where
  "scan_abuse_keys c pfx [] out s = (Inr out, s)"
| "scan_abuse_keys c pfx (k # ks) out s =
     (case on_redis (rc_hgetall c k) s of
        (Inl _, s1) \<Rightarrow> scan_abuse_keys c pfx ks out s1
      | (Inr vals, s1) \<Rightarrow>
          (case on_redis (rc_ttl c k) s1 of
             (ttl, s2) \<Rightarrow>
               (case go_slice_from k (length pfx) of
                  Inl p \<Rightarrow> (Inl p, s2)
                | Inr ident \<Rightarrow>
                    (case abuse_entry_of k ident vals ttl s2 of
                       (e, s3) \<Rightarrow> scan_abuse_keys c pfx ks (out @ [e]) s3))))"

text \<open>The cursor loop has no bound of its own: whether it ends is up to the server, and None is
  "does not return".\<close>

partial_function (option) scan_abuse_loop ::
  "'r redis_client \<Rightarrow> string \<Rightarrow> string \<Rightarrow> uint64 \<Rightarrow> abuse_entry list \<Rightarrow> 'r store
     \<Rightarrow> (abuse_entry list scanned \<times> 'r store) option" where
  "scan_abuse_loop c pattern pfx cursor out s =
     (case on_redis (rc_scan c cursor pattern 100) s of
        (Inl err, s1) \<Rightarrow> Some (ScanErr err, observe ''ScanAbuse'' (Some err) s1)
      | (Inr (keys, cursor'), s1) \<Rightarrow>
          (case scan_abuse_keys c pfx keys out s1 of
             (Inl p, s2) \<Rightarrow> Some (ScanPanic p, s2)
           | (Inr out', s2) \<Rightarrow>
               (if cursor' = 0 then Some (Scanned out', observe ''ScanAbuse'' None s2)
                else scan_abuse_loop c pattern pfx cursor' out' s2)))"

definition scanAbuse ::
  "'r redis_client \<Rightarrow> string \<Rightarrow> string \<Rightarrow> 'r store \<Rightarrow> (abuse_entry list scanned \<times> 'r store) option" where
  "scanAbuse c pattern pfx s = scan_abuse_loop c pattern pfx 0 [] s"

definition ScanAbuseKeys :: "'r clients \<Rightarrow> 'r store \<Rightarrow> (abuse_entry list scanned \<times> 'r store) option" where
  "ScanAbuseKeys c s = scanAbuse (abuseK c) (abuse_key_prefix @ ''*'') abuse_key_prefix s"

definition ScanAbuseIPs :: "'r clients \<Rightarrow> 'r store \<Rightarrow> (abuse_entry list scanned \<times> 'r store) option" where
  "ScanAbuseIPs c s = scanAbuse (abuseIP c) (abuse_ip_prefix @ ''*'') abuse_ip_prefix s"

fun scan_limit_keys ::
  "'r redis_client \<Rightarrow> string list \<Rightarrow> limit_entry list \<Rightarrow> 'r store
     \<Rightarrow> (go_panic + limit_entry list) \<times> 'r store" where
  "scan_limit_keys c [] out s = (Inr out, s)"
| "scan_limit_keys c (k # ks) out s =
     (case on_redis (rc_hgetall c k) s of
        (Inl _, s1) \<Rightarrow> scan_limit_keys c ks out s1
      | (Inr vals, s1) \<Rightarrow>
          (case go_slice_from k (length ''rate:limit:'') of
             Inl p \<Rightarrow> (Inl p, s1)
           | Inr ident \<Rightarrow>
               (case parseInt64 k ''limit'' (field vals ''limit'') s1 of
                  (l, s2) \<Rightarrow>
                    (case parseInt64 k ''created_at'' (field vals ''created_at'') s2 of
                       (ca, s3) \<Rightarrow>
                         scan_limit_keys c ks
                           (out @ [\<lparr>leAPIKey = ident, leLimit = l, leCreatedAt = unix_time ca\<rparr>]) s3))))"

partial_function (option) scan_limits_loop ::
  "'r redis_client \<Rightarrow> uint64 \<Rightarrow> limit_entry list \<Rightarrow> 'r store
     \<Rightarrow> (limit_entry list scanned \<times> 'r store) option" where
  "scan_limits_loop c cursor out s =
     (case on_redis (rc_scan c cursor (''rate:limit:'' @ ''*'') 100) s of
        (Inl err, s1) \<Rightarrow> Some (ScanErr err, observe ''ScanLimits'' (Some err) s1)
      | (Inr (keys, cursor'), s1) \<Rightarrow>
          (case scan_limit_keys c keys out s1 of
             (Inl p, s2) \<Rightarrow> Some (ScanPanic p, s2)
           | (Inr out', s2) \<Rightarrow>
               (if cursor' = 0 then Some (Scanned out', observe ''ScanLimits'' None s2)
                else scan_limits_loop c cursor' out' s2)))"

definition ScanLimits :: "'r clients \<Rightarrow> 'r store \<Rightarrow> (limit_entry list scanned \<times> 'r store) option" where
  "ScanLimits c s = scan_limits_loop (limits c) 0 [] s"

declare scan_abuse_loop.simps [code] scan_limits_loop.simps [code]

section \<open>Sizes, ping, deletes\<close>

text \<open>\<^verbatim>\<open>DBSize\<close> stops at the first error; the deferred \<^verbatim>\<open>observe\<close> runs on every path.\<close>

definition DBSize ::
  "'r clients \<Rightarrow> 'r store \<Rightarrow> (go_err + int64 \<times> int64 \<times> int64) \<times> 'r store" where
  "DBSize c s =
     (let (r, s') =
        (case on_redis (rc_dbsize (limits c)) s of
           (Inl e, s1) \<Rightarrow> (Inl e, s1)
         | (Inr db1, s1) \<Rightarrow>
             (case on_redis (rc_dbsize (abuseK c)) s1 of
                (Inl e, s2) \<Rightarrow> (Inl e, s2)
              | (Inr db2, s2) \<Rightarrow>
                  (case on_redis (rc_dbsize (abuseIP c)) s2 of
                     (Inl e, s3) \<Rightarrow> (Inl e, s3)
                   | (Inr db3, s3) \<Rightarrow> (Inr (db1, db2, db3), s3))))
      in (r, observe ''DBSize'' (err_of r) s'))"

definition Ping :: "'r clients \<Rightarrow> 'r store \<Rightarrow> go_err option \<times> 'r store" where
  "Ping c s = (let (err, s1) = on_redis (rc_ping (limits c)) s in (err, observe ''Ping'' err s1))"

definition delByPrefix ::
  "'r redis_client \<Rightarrow> string \<Rightarrow> string list \<Rightarrow> 'r store \<Rightarrow> (go_err + int64) \<times> 'r store" where
  "delByPrefix c pfx ids s =
     (if ids = [] then (Inr 0, s)
      else (let (r, s1) = on_redis (rc_del c (map ((@) pfx) ids)) s
            in (r, observe ''Del'' (err_of r) s1)))"

definition DeleteLimits :: "'r clients \<Rightarrow> string list \<Rightarrow> 'r store \<Rightarrow> (go_err + int64) \<times> 'r store" where
  "DeleteLimits c apiKeys s = delByPrefix (limits c) ''rate:limit:'' apiKeys s"

definition DeleteAbuseKeys :: "'r clients \<Rightarrow> string list \<Rightarrow> 'r store \<Rightarrow> (go_err + int64) \<times> 'r store" where
  "DeleteAbuseKeys c apiKeys s = delByPrefix (abuseK c) abuse_key_prefix apiKeys s"

definition DeleteAbuseIPs :: "'r clients \<Rightarrow> string list \<Rightarrow> 'r store \<Rightarrow> (go_err + int64) \<times> 'r store" where
  "DeleteAbuseIPs c ips s = delByPrefix (abuseIP c) abuse_ip_prefix ips s"

definition flush_db :: "'r redis_client \<Rightarrow> 'r store \<Rightarrow> go_err option \<times> 'r store" where
  "flush_db c s = (let (err, s1) = on_redis (rc_flushdb c) s in (err, observe ''FlushDB'' err s1))"

definition PurgeLimits :: "'r clients \<Rightarrow> 'r store \<Rightarrow> go_err option \<times> 'r store" where
  "PurgeLimits c s = flush_db (limits c) s"

definition PurgeAbuseKeys :: "'r clients \<Rightarrow> 'r store \<Rightarrow> go_err option \<times> 'r store" where
  "PurgeAbuseKeys c s = flush_db (abuseK c) s"

definition PurgeAbuseIPs :: "'r clients \<Rightarrow> 'r store \<Rightarrow> go_err option \<times> 'r store" where
  "PurgeAbuseIPs c s = flush_db (abuseIP c) s"

end
