(* ===== verification/Interfaces.thy ===== *)
theory Interfaces
  imports Store
begin

text \<open>
  The Go interfaces through which the components use each other, as locales: the operations the
  client calls and the laws the provider keeps. \<open>limit_lookup\<close> is \<^verbatim>\<open>limiter.LimitLookup\<close>,
  \<open>cleanup_store\<close> is \<^verbatim>\<open>cleanup.Store\<close> (both provided by the store, interpreted in \<open>Store_Correct\<close>),
  \<open>decider\<close> is \<^verbatim>\<open>handler.Decider\<close> (provided by the limiter, interpreted in \<open>Limiter\<close>).
\<close>

text \<open>\<^verbatim>\<open>LookupLimit\<close> returns limit, found and error. An error comes with "not found" and no limit, a
  missing key is not an error, and \<^verbatim>\<open>redis.Nil\<close> never leaks out.\<close>

locale limit_lookup =
  fixes lookup :: "string \<Rightarrow> 's \<Rightarrow> (int64 \<times> bool \<times> go_err option) \<times> 's"
  assumes error_unfound: "fst (lookup k s) = (l, f, Some e) \<Longrightarrow> l = 0 \<and> \<not> f \<and> e \<noteq> RedisNil"
    and unfound_zero: "fst (lookup k s) = (l, False, None) \<Longrightarrow> l = 0"
begin

text \<open>So an outcome is one of three, and the limit counts only in the first.\<close>

lemma lookup_cases:
  obtains (found) l where "fst (lookup k s) = (l, True, None)"
  | (missing) "fst (lookup k s) = (0, False, None)"
  | (failed) e where "fst (lookup k s) = (0, False, Some e)" and "e \<noteq> RedisNil"
proof -
  obtain l f err where *: "fst (lookup k s) = (l, f, err)" by (cases "fst (lookup k s)")
  show ?thesis
  proof (cases err)
    case None
    with * unfound_zero[of k s l] found missing show ?thesis by (cases f) auto
  next
    case (Some e)
    with * error_unfound[of k s l f e] failed show ?thesis by auto
  qed
qed

end

text \<open>Cleanup's view of the store: the health flag reports the last operation.\<close>

locale cleanup_store =
  fixes limit_exists :: "string \<Rightarrow> 's \<Rightarrow> (go_err + bool) \<times> 's"
    and upsert_key :: "string \<Rightarrow> abuse_record \<Rightarrow> duration \<Rightarrow> 's \<Rightarrow> go_err option \<times> 's"
    and upsert_ip :: "string \<Rightarrow> abuse_record \<Rightarrow> duration \<Rightarrow> 's \<Rightarrow> go_err option \<times> 's"
    and dbsize :: "'s \<Rightarrow> (go_err + int64 \<times> int64 \<times> int64) \<times> 's"
    and is_healthy :: "'s \<Rightarrow> bool"
  assumes exists_health: "is_healthy (snd (limit_exists k s)) \<longleftrightarrow>
      err_of (fst (limit_exists k s)) \<in> {None, Some RedisNil}"
    and upsert_key_health: "is_healthy (snd (upsert_key k r ttl s)) \<longleftrightarrow>
      fst (upsert_key k r ttl s) \<in> {None, Some RedisNil}"
    and upsert_ip_health: "is_healthy (snd (upsert_ip k r ttl s)) \<longleftrightarrow>
      fst (upsert_ip k r ttl s) \<in> {None, Some RedisNil}"
    and dbsize_health: "is_healthy (snd (dbsize s)) \<longleftrightarrow>
      err_of (fst (dbsize s)) \<in> {None, Some RedisNil}"

text \<open>A decider answers every request while its invariant holds, keeps it, allows a request that
  carries neither key nor address, and counts every decision once.\<close>

locale decider =
  fixes decide :: "string \<Rightarrow> string \<Rightarrow> 's \<Rightarrow> (go_panic + bool) \<times> 's"
    and inv :: "'s \<Rightarrow> bool"
    and decided :: "'s \<Rightarrow> nat"
  assumes decide_total: "inv s \<Longrightarrow> \<exists>b s'. decide k ip s = (Inr b, s') \<and> inv s' \<and> decided s' = Suc (decided s)"
    and keyless: "fst (decide [] [] s) = Inr True"

end
