(* ===== verification/Metrics.thy ===== *)
theory Metrics
  imports Go_Time
begin

text \<open>
  \<^verbatim>\<open>internal/metrics/metrics.go\<close>: the metrics the service keeps. Prometheus itself is a library
  the program only calls, so the record holds what the calls amount to: how often a counter was
  incremented (or by how much in total), the value a gauge was last set to, the durations a
  histogram observed. Durations stay in nanoseconds where the code converts them to a float of
  seconds. The second part is the table of the collectors \<^verbatim>\<open>New\<close> creates and registers.
\<close>

record metrics =
  RequestsAllowed :: nat
  RequestsBlockedIndividual :: nat
  RequestsBlockedGlobal :: nat
  CountersKnownActive :: int64
  CountersUnknownActive :: int64
  MemoryBytes :: int64
  CleanupRunsTotal :: nat
  CleanupDeletedTotal :: nat
  CleanupTransferredTotal :: nat
  CleanupLastDuration :: duration
  RedisErrorsTotal :: nat
  RedisDB1Keys :: int64
  RedisDB2Keys :: int64
  RedisDB3Keys :: int64
  CheckDurations :: "duration list"

text \<open>Counter increments, one per metric the code increments on its own.\<close>

definition inc_allowed :: "metrics \<Rightarrow> metrics" where
  "inc_allowed m = m\<lparr>RequestsAllowed := Suc (RequestsAllowed m)\<rparr>"

definition inc_blocked_individual :: "metrics \<Rightarrow> metrics" where
  "inc_blocked_individual m = m\<lparr>RequestsBlockedIndividual := Suc (RequestsBlockedIndividual m)\<rparr>"

definition inc_blocked_global :: "metrics \<Rightarrow> metrics" where
  "inc_blocked_global m = m\<lparr>RequestsBlockedGlobal := Suc (RequestsBlockedGlobal m)\<rparr>"

definition inc_redis_errors :: "metrics \<Rightarrow> metrics" where
  "inc_redis_errors m = m\<lparr>RedisErrorsTotal := Suc (RedisErrorsTotal m)\<rparr>"

definition observe_check :: "duration \<Rightarrow> metrics \<Rightarrow> metrics" where
  "observe_check d m = m\<lparr>CheckDurations := d # CheckDurations m\<rparr>"

lemmas [metric_simps] =
  inc_allowed_def inc_blocked_individual_def inc_blocked_global_def inc_redis_errors_def
  observe_check_def

text \<open>Requests decided so far: the sum the README tells operators to form, plus the allowed ones.\<close>

definition requests_decided :: "metrics \<Rightarrow> nat" where
  "requests_decided m =
     RequestsAllowed m + RequestsBlockedIndividual m + RequestsBlockedGlobal m"

section \<open>The collectors New registers\<close>

datatype metric_kind = CounterK | GaugeK | HistogramK

record metric_desc =
  md_name :: string
  md_help :: string
  md_kind :: metric_kind
  md_labels :: "(string \<times> string) list"

definition metric :: "metric_kind \<Rightarrow> string \<Rightarrow> string \<Rightarrow> metric_desc" where
  "metric k n h = \<lparr>md_name = n, md_help = h, md_kind = k, md_labels = []\<rparr>"

text \<open>The children of the \<^verbatim>\<open>ratelimit_requests_total\<close> vector, one per result label.\<close>

definition requests_total :: "string \<Rightarrow> metric_desc" where
  "requests_total r =
     \<lparr>md_name = ''ratelimit_requests_total'', md_help = ''Total ratelimit requests by result'',
      md_kind = CounterK, md_labels = [(''result'', r)]\<rparr>"

definition metrics_New :: "metrics \<times> metric_desc list" where
  "metrics_New =
     (\<lparr>RequestsAllowed = 0, RequestsBlockedIndividual = 0, RequestsBlockedGlobal = 0,
       CountersKnownActive = 0, CountersUnknownActive = 0, MemoryBytes = 0,
       CleanupRunsTotal = 0, CleanupDeletedTotal = 0, CleanupTransferredTotal = 0,
       CleanupLastDuration = 0, RedisErrorsTotal = 0,
       RedisDB1Keys = 0, RedisDB2Keys = 0, RedisDB3Keys = 0, CheckDurations = []\<rparr>,
      [requests_total ''allowed'', requests_total ''blocked_individual'',
       requests_total ''blocked_global'',
       metric GaugeK ''ratelimit_counters_known_active'' ''Active counters in KnownCounters map'',
       metric GaugeK ''ratelimit_counters_unknown_active'' ''Active counters in UnknownCounters map'',
       metric GaugeK ''ratelimit_memory_bytes'' ''Approximate memory used by both counter maps'',
       metric CounterK ''ratelimit_cleanup_runs_total'' ''Number of cleanup cycles run'',
       metric CounterK ''ratelimit_cleanup_deleted_total'' ''Counters deleted by cleanup'',
       metric CounterK ''ratelimit_cleanup_transferred_total''
         ''Counters transferred to redis by cleanup'',
       metric GaugeK ''ratelimit_cleanup_last_duration_seconds'' ''Duration of the last cleanup cycle'',
       metric CounterK ''ratelimit_redis_errors_total'' ''Redis errors observed'',
       metric GaugeK ''ratelimit_redis_db1_keys'' ''Keys in redisDB1'',
       metric GaugeK ''ratelimit_redis_db2_keys'' ''Keys in redisDB2'',
       metric GaugeK ''ratelimit_redis_db3_keys'' ''Keys in redisDB3'',
       metric HistogramK ''ratelimit_check_duration_seconds'' ''Duration of /check handler''])"

abbreviation zero_metrics :: metrics where "zero_metrics \<equiv> fst metrics_New"

lemma requests_decided_inc [simp]:
  "requests_decided (inc_allowed m) = Suc (requests_decided m)"
  "requests_decided (inc_blocked_individual m) = Suc (requests_decided m)"
  "requests_decided (inc_blocked_global m) = Suc (requests_decided m)"
  "requests_decided (inc_redis_errors m) = requests_decided m"
  "requests_decided (observe_check d m) = requests_decided m"
  by (simp_all add: requests_decided_def metric_simps)

lemma metric_series_distinct:
  "distinct (map (\<lambda>d. (md_name d, md_labels d)) (snd metrics_New))"
  by code_simp

end
