(* ===== verification/Handler.thy ===== *)
theory Handler
  imports Interfaces Metrics
begin

text \<open>
  \<^verbatim>\<open>internal/handler/check.go\<close>: the \<^verbatim>\<open>/check\<close> endpoint. It reads a key and an address off the request,
  asks its decider and answers 200 or 403; a panic on the way is answered with 200. The decider is
  an argument, and so is the observation of the duration histogram (\<open>obs\<close>), since the metrics are
  shared with the decider. The facts about every decider are proved in the locale
  \<open>observed_decider\<close>.
\<close>

section \<open>Requests\<close>

text \<open>A request as net/http hands it over: headers under canonical names, the first value of each
  name counting, and the undecoded query.\<close>

record http_request =
  hr_method :: string
  hr_header :: "(string \<times> string) list"
  hr_rawQuery :: string

definition to_upper :: "char \<Rightarrow> char" where
  "to_upper c = (if 97 \<le> byte_of c \<and> byte_of c \<le> 122 then char_of (byte_of c - 32) else c)"

definition to_lower :: "char \<Rightarrow> char" where
  "to_lower c = (if 65 \<le> byte_of c \<and> byte_of c \<le> 90 then char_of (byte_of c + 32) else c)"

fun canonical_key :: "bool \<Rightarrow> string \<Rightarrow> string" where
  "canonical_key up [] = []"
| "canonical_key up (c # cs) =
     (if up then to_upper c else to_lower c) # canonical_key (c = CHR ''-'') cs"

text \<open>\<^verbatim>\<open>Header.Get\<close>: empty for a missing header.\<close>

definition header_get :: "http_request \<Rightarrow> string \<Rightarrow> string" where
  "header_get r name =
     (case map_of (hr_header r) (canonical_key True name) of None \<Rightarrow> [] | Some v \<Rightarrow> v)"

definition url_query :: "http_request \<Rightarrow> (string \<times> string) list" where
  "url_query r = ParseQuery (hr_rawQuery r)"

section \<open>Key and address\<close>

definition extractIP :: "http_request \<Rightarrow> string" where
  "extractIP r =
     (let v = TrimSpace (header_get r ''X-Real-IP'')
      in if v = [] then []
         else if \<not> ParseIP_ok v then []
         else v)"

definition extractKey :: "http_request \<Rightarrow> string" where
  "extractKey r =
     (let v = header_get r ''X-Api-Key'' in
      if v \<noteq> [] then v
      else
        (let q = url_query r; v = query_get q ''api_key'' in
         if v \<noteq> [] then v
         else
           (let v = query_get q ''token'' in
            if v \<noteq> [] then v
            else
              (let uri = header_get r ''X-Original-URI'' in
               if uri \<noteq> [] then
                 (case url_Parse uri of
                    Some rawQuery \<Rightarrow>
                      (let uq = ParseQuery rawQuery; v = query_get uq ''api_key'' in
                       if v \<noteq> [] then v
                       else
                         (let v = query_get uq ''token'' in
                          if v \<noteq> [] then v else []))
                  | None \<Rightarrow> [])
               else []))))"

section \<open>The handler\<close>

datatype check_log = CheckDebug string string string bool | CheckPanic go_panic

definition StatusOK :: nat where "StatusOK = 200"
definition StatusForbidden :: nat where "StatusForbidden = 403"

text \<open>The first \<^verbatim>\<open>WriteHeader\<close> of a response counts; later ones are ignored by net/http.\<close>

definition WriteHeader :: "nat \<Rightarrow> nat option \<Rightarrow> nat option" where
  "WriteHeader code w = (case w of None \<Rightarrow> Some code | Some c \<Rightarrow> Some c)"

text \<open>\<^verbatim>\<open>start\<close> and \<^verbatim>\<open>fin\<close> are the clock readings around the request. The deferred function observes the
  duration, then recovers.\<close>

definition ServeHTTP ::
  "(string \<Rightarrow> string \<Rightarrow> 's \<Rightarrow> (go_panic + bool) \<times> 's) \<Rightarrow> (duration \<Rightarrow> 's \<Rightarrow> 's)
     \<Rightarrow> go_time \<Rightarrow> go_time \<Rightarrow> http_request \<Rightarrow> 's \<Rightarrow> nat option \<times> check_log list \<times> 's" where
  "ServeHTTP decide obs start fin r s =
     (let apiKey = extractKey r; ip = extractIP r; w = None in
      case decide apiKey ip s of
        (Inl p, s1) \<Rightarrow>
          (let s2 = obs (time_Sub fin start) s1
           in (WriteHeader StatusOK w, [CheckPanic p], s2))
      | (Inr allowed, s1) \<Rightarrow>
          (let log = [CheckDebug apiKey ip (hr_rawQuery r) allowed];
               w' = (if allowed then WriteHeader StatusOK w else WriteHeader StatusForbidden w)
           in (w', log, obs (time_Sub fin start) s1)))"

text \<open>net/http answers 200 for a handler that wrote no status.\<close>

definition response_status :: "nat option \<times> 'l \<times> 's \<Rightarrow> nat" where
  "response_status res = (case fst res of None \<Rightarrow> 200 | Some c \<Rightarrow> c)"

section \<open>Serving with any decider\<close>

text \<open>A decider whose metrics the handler also observes durations in.\<close>

locale observed_decider = decider +
  fixes obs :: "duration \<Rightarrow> 'a \<Rightarrow> 'a"
  assumes obs_inv: "inv s \<Longrightarrow> inv (obs d s)"
    and obs_decided: "decided (obs d s) = decided s"
begin

text \<open>One decision per request, 200 or 403, the invariant kept.\<close>

lemma serve_decides_once:
  assumes "inv s"
  obtains b s' where "decide (extractKey r) (extractIP r) s = (Inr b, s')"
    and "fst (ServeHTTP decide obs start fin r s) = Some (if b then 200 else 403)"
    and "inv (snd (snd (ServeHTTP decide obs start fin r s)))"
    and "decided (snd (snd (ServeHTTP decide obs start fin r s))) = Suc (decided s)"
proof -
  obtain b s' where d: "decide (extractKey r) (extractIP r) s = (Inr b, s')" "inv s'"
    "decided s' = Suc (decided s)"
    using decide_total[OF assms] by blast
  then show ?thesis
    by (intro that[of b s'])
      (simp_all add: ServeHTTP_def Let_def WriteHeader_def StatusOK_def StatusForbidden_def
        obs_inv obs_decided)
qed

lemma serve_keyless:
  assumes "extractKey r = []" and "extractIP r = []"
  shows "fst (ServeHTTP decide obs start fin r s) = Some 200"
  using keyless[of s] assms
  by (cases "decide [] [] s")
    (simp add: ServeHTTP_def Let_def WriteHeader_def StatusOK_def)

end

end
