(* ===== verification/Fixed_Window.thy ===== *)
theory Fixed_Window
  imports Go_Time
begin

text \<open>
  What a fixed-window counter is, independently of the two maps that hold counters. The first
  part is the decision record and a counter state with one penalty count (the known counters'
  violations, the unknown counters' abuse hits); the second says what a stream of requests does
  to it, in terms of the runs of equal slot numbers of the stream; the third is the interface of
  a counter map (\<open>counter_map\<close>, \<open>counter_gc\<close>), with what follows for a map's clients.
\<close>

section \<open>One counter\<close>

record decision =
  dAllowed :: bool
  dWindowCount :: int64
  dLimit :: int64
  dBurst :: int64
  dInBurst :: bool

record window_state =
  wFirst :: go_time
  wLast :: go_time
  wTotal :: int64
  wCount :: int64
  wSlot :: int64
  wBurst :: int64
  wHits :: int64

definition window_new :: "go_time \<Rightarrow> int64 \<Rightarrow> window_state" where
  "window_new now slot =
     \<lparr>wFirst = now, wLast = now, wTotal = 0, wCount = 0, wSlot = slot, wBurst = 0, wHits = 0\<rparr>"

text \<open>The state after one request and the window count it was decided on.\<close>

definition window_step ::
  "int64 \<Rightarrow> int64 \<Rightarrow> int64 \<Rightarrow> go_time \<Rightarrow> int64 \<Rightarrow> window_state \<Rightarrow> window_state" where
  "window_step thr limit burst now slot w =
     (let n = (if wSlot w = slot then wCount w else 0) + 1 in
      w\<lparr>wLast := now, wTotal := wTotal w + 1, wCount := n, wSlot := slot,
        wBurst := (if limit <s n \<and> n \<le>s limit + burst then wBurst w + 1 else wBurst w),
        wHits := (if wSlot w \<noteq> slot \<and> thr <s wCount w then wHits w + 1 else wHits w)\<rparr>)"

definition decide_count :: "int64 \<Rightarrow> int64 \<Rightarrow> int64 \<Rightarrow> decision" where
  "decide_count limit burst n =
     \<lparr>dAllowed = (n \<le>s limit + burst), dWindowCount = n, dLimit = limit, dBurst = burst,
      dInBurst = (limit <s n \<and> n \<le>s limit + burst)\<rparr>"

text \<open>A request at a time, on the counter a map holds for the key (none yet, perhaps).\<close>

definition slot_at :: "int64 \<Rightarrow> go_time \<Rightarrow> int64" where
  "slot_at windowS now = go_quot (time_Unix now) windowS"

definition window_req ::
  "int64 \<Rightarrow> int64 \<Rightarrow> int64 \<Rightarrow> int64 \<Rightarrow> window_state option \<Rightarrow> go_time \<Rightarrow> window_state \<times> decision" where
  "window_req thr limit burst windowS wo now =
     (let slot = slot_at windowS now;
          w = window_step thr limit burst now slot
                (case wo of None \<Rightarrow> window_new now slot | Some w \<Rightarrow> w)
      in (w, decide_count limit burst (wCount w)))"

fun window_run ::
  "int64 \<Rightarrow> int64 \<Rightarrow> int64 \<Rightarrow> int64 \<Rightarrow> window_state option \<Rightarrow> go_time list
     \<Rightarrow> window_state option \<times> decision list" where
  "window_run thr limit burst windowS wo [] = (wo, [])"
| "window_run thr limit burst windowS wo (t # ts) =
     (let (w, d) = window_req thr limit burst windowS wo t;
          (wo', ds) = window_run thr limit burst windowS (Some w) ts
      in (wo', d # ds))"

lemma window_run_append:
  "window_run thr l b ws wo (ts @ us) =
     (let (wo1, ds1) = window_run thr l b ws wo ts; (wo2, ds2) = window_run thr l b ws wo1 us
      in (wo2, ds1 @ ds2))"
  by (induction ts arbitrary: wo) (auto simp: Let_def split: prod.splits)

lemma length_window_run [simp]: "length (snd (window_run thr l b ws wo ts)) = length ts"
  by (induction ts arbitrary: wo) (auto simp: Let_def case_prod_beta)

section \<open>What a stream of requests does\<close>

text \<open>
  Specification: a run of \<open>n\<close> requests in one slot has its first \<open>limit + burst\<close> requests
  allowed, those past \<open>limit\<close> counting as burst; a completed run longer than the threshold counts
  one penalty.
\<close>

definition allowed_in_run :: "int \<Rightarrow> int \<Rightarrow> nat \<Rightarrow> nat" where
  "allowed_in_run l b n = length (filter (\<lambda>j. int j \<le> l + b) [1..<Suc n])"

definition burst_in_run :: "int \<Rightarrow> int \<Rightarrow> nat \<Rightarrow> nat" where
  "burst_in_run l b n = length (filter (\<lambda>j. l < int j \<and> int j \<le> l + b) [1..<Suc n])"

lemma allowed_in_run_Suc:
  "allowed_in_run l b (Suc n) = allowed_in_run l b n + (if int (Suc n) \<le> l + b then 1 else 0)"
  by (simp add: allowed_in_run_def)

lemma burst_in_run_Suc:
  "burst_in_run l b (Suc n) =
     burst_in_run l b n + (if l < int (Suc n) \<and> int (Suc n) \<le> l + b then 1 else 0)"
  by (simp add: burst_in_run_def)

lemma allowed_in_run_0 [simp]: "allowed_in_run l b 0 = 0"
  by (simp add: allowed_in_run_def)

lemma burst_in_run_0 [simp]: "burst_in_run l b 0 = 0"
  by (simp add: burst_in_run_def)

lemma allowed_in_run_min: "allowed_in_run l b n = min n (nat (l + b))"
  by (induction n) (auto simp: allowed_in_run_Suc min_def)

lemma burst_in_run_le: "burst_in_run l b n \<le> allowed_in_run l b n"
  by (induction n) (auto simp: allowed_in_run_Suc burst_in_run_Suc)

definition burst_total :: "int \<Rightarrow> int \<Rightarrow> ('s \<times> nat) list \<Rightarrow> nat" where
  "burst_total l b rs = sum_list (map (\<lambda>(s, n). burst_in_run l b n) rs)"

definition allowed_total :: "int \<Rightarrow> int \<Rightarrow> ('s \<times> nat) list \<Rightarrow> nat" where
  "allowed_total l b rs = sum_list (map (\<lambda>(s, n). allowed_in_run l b n) rs)"

definition hits_total :: "int \<Rightarrow> ('s \<times> nat) list \<Rightarrow> nat" where
  "hits_total thr rs = length (filter (\<lambda>(s, n). thr < int n) (tl rs))"

text \<open>The state a stream of requests leads to, given the newest-first runs of its slots.\<close>

definition window_abs ::
  "int64 \<Rightarrow> int64 \<Rightarrow> int64 \<Rightarrow> int64 \<Rightarrow> go_time list \<Rightarrow> window_state \<Rightarrow> bool" where
  "window_abs thr l b ws ts w \<longleftrightarrow>
     (let rs = runs_of (map (slot_at ws) ts) in
      wFirst w = hd ts \<and> wLast w = last ts \<and> sint (wTotal w) = int (length ts)
      \<and> wSlot w = fst (hd rs) \<and> sint (wCount w) = int (snd (hd rs))
      \<and> sint (wBurst w) = int (burst_total (sint l) (sint b) rs)
      \<and> sint (wHits w) = int (hits_total (sint thr) rs))"

lemma burst_total_le: "burst_total l b rs \<le> sum_list (map snd rs)"
proof (induction rs)
  case (Cons r rs)
  have "burst_in_run l b (snd r) \<le> snd r"
    using burst_in_run_le[of l b "snd r"] by (simp add: allowed_in_run_min)
  with Cons show ?case by (auto simp: burst_total_def case_prod_beta)
qed (simp add: burst_total_def)

lemma hits_total_le: "\<forall>r \<in> set rs. 0 < snd r \<Longrightarrow> hits_total thr rs \<le> sum_list (map snd rs)"
proof -
  have len: "\<forall>r \<in> set rs. 0 < snd r \<Longrightarrow> length rs \<le> sum_list (map snd rs)" for rs :: "('a \<times> nat) list"
    by (induction rs) auto
  assume "\<forall>r \<in> set rs. 0 < snd r"
  then have "length rs \<le> sum_list (map snd rs)" by (rule len)
  moreover have "hits_total thr rs \<le> length (tl rs)"
    unfolding hits_total_def by (rule length_filter_le)
  ultimately show ?thesis by simp
qed


lemma window_abs_first:
  assumes "in_int64 (sint l + sint b)"
  shows "window_abs thr l b ws [t] (fst (window_req thr l b ws None t))"
  using assms
  by (simp add: window_abs_def window_req_def window_step_def window_new_def Let_def
      burst_total_def hits_total_def burst_in_run_def int64_simps sint_add_in_range)

lemma window_abs_step:
  assumes abs: "window_abs thr l b ws ts w" and ne: "ts \<noteq> []"
    and rng: "in_int64 (sint l + sint b)" and len: "int (length ts) + 1 < 2 ^ 63"
  shows "window_abs thr l b ws (ts @ [t]) (fst (window_req thr l b ws (Some w) t))"
proof -
  define rs where "rs = runs_of (map (slot_at ws) ts)"
  obtain s n rs' where rs: "rs = (s, n) # rs'"
    using ne unfolding rs_def by (cases "runs_of (map (slot_at ws) ts)") auto
  have sum: "sum_list (map snd rs) = length ts"
    by (simp only: rs_def sum_runs_of length_map)
  with rs have n: "n \<le> length ts" by simp
  have bt: "burst_total (sint l) (sint b) rs \<le> length ts"
    using burst_total_le[of "sint l" "sint b" rs] sum by simp
  have ht: "hits_total (sint thr) rs \<le> length ts"
  proof -
    have "\<forall>r \<in> set rs. 0 < snd r" unfolding rs_def by (blast intro: runs_of_pos)
    from hits_total_le[OF this, of "sint thr"] sum show ?thesis by simp
  qed
  note w = abs[unfolded window_abs_def Let_def, folded rs_def, unfolded rs list.sel fst_conv snd_conv]
  have inc: "sint (x + 1 :: int64) = int (Suc k)" if "sint x = int k" "k \<le> length ts" for x k
    using that len by (subst sint_inc) auto
  have run: "runs_of (map (slot_at ws) (ts @ [t])) = add_run rs (slot_at ws t)"
    by (simp add: rs_def)
  have tot: "sint (wTotal w + 1) = int (length (ts @ [t]))"
    using inc[of "wTotal w" "length ts"] w by simp
  let ?w = "fst (window_req thr l b ws (Some w) t)"
  have lb: "sint (l + b) = sint l + sint b" using rng by (rule sint_add_in_range)
  show ?thesis
  proof (cases "slot_at ws t = s")
    case True
    have cnt: "sint (wCount w + 1) = int (Suc n)" using inc[of "wCount w" n] w n by simp
    have "?w = w\<lparr>wLast := t, wTotal := wTotal w + 1, wCount := wCount w + 1, wSlot := s,
      wBurst := (if sint l < int (Suc n) \<and> int (Suc n) \<le> sint l + sint b
                 then wBurst w + 1 else wBurst w), wHits := wHits w\<rparr>"
      using True w cnt lb
      by (simp add: window_req_def window_step_def Let_def word_sless_alt word_sle_eq del: of_nat_Suc)
    then show ?thesis
      using True w rs run tot cnt inc[OF _ bt] ne
      by (simp add: window_abs_def Let_def hits_total_def burst_total_def burst_in_run_Suc del: of_nat_Suc)
  next
    case False
    have "?w = w\<lparr>wLast := t, wTotal := wTotal w + 1, wCount := 1, wSlot := slot_at ws t,
      wBurst := (if sint l < 1 \<and> 1 \<le> sint l + sint b then wBurst w + 1 else wBurst w),
      wHits := (if sint thr < int n then wHits w + 1 else wHits w)\<rparr>"
      using False w lb by (simp add: window_req_def window_step_def Let_def word_sless_alt word_sle_eq)
    moreover have "burst_total (sint l) (sint b) ((slot_at ws t, 1) # rs) =
      burst_total (sint l) (sint b) rs + (if sint l < 1 \<and> 1 \<le> sint l + sint b then 1 else 0)"
      by (simp add: burst_total_def burst_in_run_def)
    moreover have "hits_total (sint thr) ((slot_at ws t, 1) # rs) =
      hits_total (sint thr) rs + (if sint thr < int n then 1 else 0)"
      using rs by (simp add: hits_total_def)
    ultimately show ?thesis
      using False w rs run tot inc[OF _ bt] inc[OF _ ht] ne
      by (simp add: window_abs_def Let_def del: of_nat_Suc)
  qed
qed

lemma window_run_abs:
  assumes rng: "in_int64 (sint l + sint b)" and len: "int (length ts) < 2 ^ 63" and ne: "ts \<noteq> []"
  obtains w where "fst (window_run thr l b ws None ts) = Some w" and "window_abs thr l b ws ts w"
proof -
  have "\<exists>w. fst (window_run thr l b ws None ts) = Some w \<and> window_abs thr l b ws ts w"
    using len ne
  proof (induction ts rule: rev_induct)
    case (snoc t ts)
    show ?case
    proof (cases "ts = []")
      case True
      then show ?thesis
        using window_abs_first[OF rng, of thr ws t] by (simp add: Let_def case_prod_beta)
    next
      case False
      with snoc obtain w where "fst (window_run thr l b ws None ts) = Some w"
        and "window_abs thr l b ws ts w" by auto
      with snoc.prems False show ?thesis
        using window_abs_step[OF _ False rng, of thr ws w t]
        by (simp add: window_run_append Let_def case_prod_beta)
    qed
  qed simp
  with that show ?thesis by blast
qed

lemma window_run_snoc:
  assumes rng: "in_int64 (sint l + sint b)" and len: "int (length ts) + 1 < 2 ^ 63"
  obtains d where "snd (window_run thr l b ws None (ts @ [t])) = snd (window_run thr l b ws None ts) @ [d]"
    and "dAllowed d \<longleftrightarrow>
           int (snd (hd (add_run (runs_of (map (slot_at ws) ts)) (slot_at ws t)))) \<le> sint l + sint b"
proof -
  let ?run = "window_run thr l b ws None"
  obtain w where w: "fst (?run (ts @ [t])) = Some w" "window_abs thr l b ws (ts @ [t]) w"
    using window_run_abs[OF rng, of "ts @ [t]"] len by auto
  have "snd (?run (ts @ [t])) = snd (?run ts) @ [decide_count l b (wCount w)]"
    using w(1) by (auto simp: window_run_append window_req_def Let_def case_prod_beta)
  moreover have "sint (wCount w) = int (snd (hd (runs_of (map (slot_at ws) (ts @ [t])))))"
    using w(2) by (simp only: window_abs_def Let_def)
  ultimately show ?thesis
    using rng by (intro that) (auto simp: decide_count_def word_sle_eq sint_add_in_range)
qed

text \<open>The decisions: each is the count of its slot's run so far against \<open>limit + burst\<close>.\<close>

lemma window_run_decision:
  assumes rng: "in_int64 (sint l + sint b)" and len: "int (length ts) < 2 ^ 63"
  shows "map dAllowed (snd (window_run thr l b ws None ts)) =
           map (\<lambda>i. int (snd (hd (runs_of (map (slot_at ws) (take (Suc i) ts))))) \<le> sint l + sint b)
             [0..<length ts]"
  using len
proof (induction ts rule: rev_induct)
  case (snoc t ts)
  obtain d where "snd (window_run thr l b ws None (ts @ [t])) = snd (window_run thr l b ws None ts) @ [d]"
    and "dAllowed d \<longleftrightarrow>
           int (snd (hd (add_run (runs_of (map (slot_at ws) ts)) (slot_at ws t)))) \<le> sint l + sint b"
    using window_run_snoc[OF rng, of ts thr ws t] snoc.prems by auto
  with snoc show ?case by simp
qed simp

text \<open>How many requests of one slot are allowed: what its runs allow.\<close>

definition allowed_in_slot :: "int64 \<Rightarrow> int64 \<Rightarrow> go_time list \<Rightarrow> decision list \<Rightarrow> nat" where
  "allowed_in_slot ws s ts ds =
     length (filter (\<lambda>(t, d). slot_at ws t = s \<and> dAllowed d) (zip ts ds))"

lemma allowed_total_add_run:
  "allowed_total l b (filter (\<lambda>r. fst r = s) (add_run rs s')) =
     allowed_total l b (filter (\<lambda>r. fst r = s) rs)
     + (if s' = s \<and> int (snd (hd (add_run rs s'))) \<le> l + b then 1 else 0)"
  by (cases "(rs, s')" rule: add_run.cases)
    (auto simp: allowed_total_def allowed_in_run_Suc allowed_in_run_def)

lemma window_run_slot:
  assumes rng: "in_int64 (sint l + sint b)" and len: "int (length ts) < 2 ^ 63"
  shows "allowed_in_slot ws s ts (snd (window_run thr l b ws None ts)) =
           allowed_total (sint l) (sint b) (filter (\<lambda>r. fst r = s) (runs_of (map (slot_at ws) ts)))"
  using len
proof (induction ts rule: rev_induct)
  case (snoc t ts)
  obtain d where "snd (window_run thr l b ws None (ts @ [t])) = snd (window_run thr l b ws None ts) @ [d]"
    and "dAllowed d \<longleftrightarrow>
           int (snd (hd (add_run (runs_of (map (slot_at ws) ts)) (slot_at ws t)))) \<le> sint l + sint b"
    using window_run_snoc[OF rng, of ts thr ws t] snoc.prems by auto
  with snoc show ?case
    by (simp add: allowed_in_slot_def allowed_total_add_run)
qed (simp add: allowed_in_slot_def allowed_total_def)

lemma filter_distinct_fst:
  assumes "distinct (map fst rs)" and "(s, n) \<in> set rs"
  shows "filter (\<lambda>r. fst r = s) rs = [(s, n)]"
  using assms by (induction rs) (auto simp: filter_empty_conv image_iff)

text \<open>With slots that never go back, a slot allows \<open>limit + burst\<close> requests, or all it got.\<close>

lemma window_run_slot_sorted:
  assumes rng: "in_int64 (sint l + sint b)" and len: "int (length ts) < 2 ^ 63"
    and srt: "sorted (map (\<lambda>t. sint (slot_at ws t)) ts)"
  shows "allowed_in_slot ws s ts (snd (window_run thr l b ws None ts)) =
           min (count_list (map (slot_at ws) ts) s) (nat (sint l + sint b))"
proof -
  let ?ss = "map (slot_at ws) ts"
  have srt': "sorted (map sint ?ss)" using srt by (simp add: comp_def)
  note runs = runs_of_sorted_key[OF srt' inj_sint]
  show ?thesis
  proof (cases "s \<in> set ?ss")
    case True
    then obtain n where n: "(s, n) \<in> set (runs_of ?ss)"
      using fst_runs_of[of ?ss] by force
    with runs have "filter (\<lambda>r. fst r = s) (runs_of ?ss) = [(s, n)]"
      by (simp add: filter_distinct_fst)
    with runs(2)[OF n] show ?thesis
      by (simp add: window_run_slot[OF rng len] allowed_total_def allowed_in_run_min)
  next
    case False
    then have "filter (\<lambda>r. fst r = s) (runs_of ?ss) = []"
      using fst_runs_of[of ?ss] by (force simp: filter_empty_conv)
    with False show ?thesis
      by (simp add: window_run_slot[OF rng len] allowed_total_def count_list_0_iff)
  qed
qed

section \<open>The interface of a counter map\<close>

text \<open>
  \<open>counter_map\<close>: what a client of \<^verbatim>\<open>RecordRequest\<close> relies on. A map of a non-zero window length
  answers every request; the counter of the request's key takes one \<open>window_req\<close> step, the others
  stay. \<open>threshold\<close> is what the map's penalty compares a closed slot's count with.
\<close>

locale counter_map =
  fixes get :: "'m \<Rightarrow> string \<Rightarrow> window_state option"
    and record_request :: "'m \<Rightarrow> go_time \<Rightarrow> string \<Rightarrow> int64 \<Rightarrow> int64 \<Rightarrow> go_panic + 'm \<times> decision"
    and window :: "'m \<Rightarrow> int64"
    and threshold :: "int64 \<Rightarrow> int64"
  assumes record_panics: "window m = 0 \<Longrightarrow> record_request m now k l b = Inl DivideByZero"
    and record_steps: "window m \<noteq> 0 \<Longrightarrow>
      \<exists>m'. record_request m now k l b =
              Inr (m', snd (window_req (threshold l) l b (window m) (get m k) now))
          \<and> window m' = window m
          \<and> get m' = (get m)(k \<mapsto> fst (window_req (threshold l) l b (window m) (get m k) now))"

text \<open>Requests of many clients, one after the other, each key with its own limit; a panic would
  end the run.\<close>

fun record_all ::
  "('m \<Rightarrow> go_time \<Rightarrow> string \<Rightarrow> int64 \<Rightarrow> int64 \<Rightarrow> go_panic + 'm \<times> decision)
     \<Rightarrow> (string \<Rightarrow> int64) \<Rightarrow> int64
     \<Rightarrow> 'm \<Rightarrow> (go_time \<times> string) list \<Rightarrow> go_panic + 'm \<times> decision list" where
  "record_all rec lim b m [] = Inr (m, [])"
| "record_all rec lim b m ((t, k) # rs) =
     (case rec m t k (lim k) b of
        Inl p \<Rightarrow> Inl p
      | Inr (m', d) \<Rightarrow>
          (case record_all rec lim b m' rs of
             Inl p \<Rightarrow> Inl p
           | Inr (m'', ds) \<Rightarrow> Inr (m'', d # ds)))"

text \<open>The part of a request list, and of its decisions, that concerns one key.\<close>

definition times_of :: "string \<Rightarrow> (go_time \<times> string) list \<Rightarrow> go_time list" where
  "times_of k rs = map fst (filter (\<lambda>r. snd r = k) rs)"

definition decisions_of :: "string \<Rightarrow> (go_time \<times> string) list \<Rightarrow> decision list \<Rightarrow> decision list" where
  "decisions_of k rs ds = map snd (filter (\<lambda>(r, d). snd r = k) (zip rs ds))"

context counter_map
begin

lemma record_all_steps:
  assumes "window m \<noteq> 0"
  obtains m' ds where "record_all record_request lim b m rs = Inr (m', ds)"
    and "window m' = window m" and "length ds = length rs"
    and "\<And>k. window_run (threshold (lim k)) (lim k) b (window m) (get m k) (times_of k rs)
               = (get m' k, decisions_of k rs ds)"
proof -
  have "\<exists>m' ds. record_all record_request lim b m rs = Inr (m', ds) \<and> window m' = window m
      \<and> length ds = length rs
      \<and> (\<forall>k. window_run (threshold (lim k)) (lim k) b (window m) (get m k) (times_of k rs)
               = (get m' k, decisions_of k rs ds))"
    using assms
  proof (induction rs arbitrary: m)
    case (Cons r rs)
    obtain t k where r: "r = (t, k)" by (cases r)
    let ?q = "window_req (threshold (lim k)) (lim k) b (window m) (get m k) t"
    obtain m1 where m1: "record_request m t k (lim k) b = Inr (m1, snd ?q)" "window m1 = window m"
      "get m1 = (get m)(k \<mapsto> fst ?q)"
      using record_steps[OF Cons.prems, of t k "lim k" b] by blast
    with Cons.IH[of m1] Cons.prems obtain m2 ds where
      "record_all record_request lim b m1 rs = Inr (m2, ds)" "window m2 = window m1"
      "length ds = length rs"
      "\<And>k. window_run (threshold (lim k)) (lim k) b (window m1) (get m1 k) (times_of k rs)
               = (get m2 k, decisions_of k rs ds)" by auto
    note rest = this
    have "window_run (threshold (lim k')) (lim k') b (window m) (get m k') (times_of k' (r # rs))
      = (get m2 k', decisions_of k' (r # rs) (snd ?q # ds))" for k'
      using rest(4)[of k'] m1 r
      by (cases "k' = k") (simp_all add: times_of_def decisions_of_def Let_def case_prod_beta)
    with m1 r rest show ?case
      by (intro exI[of _ m2] exI[of _ "snd ?q # ds"]) simp
  qed (simp add: times_of_def decisions_of_def)
  with that show ?thesis by blast
qed

text \<open>The two facts a map's clients want of a key that starts without a counter: how many of its
  requests each slot allows, and what its counter says in the end.\<close>

lemma admission:
  assumes nz: "window m \<noteq> 0" and new: "get m k = None"
    and rng: "in_int64 (sint (lim k) + sint b)" and len: "int (length (times_of k rs)) < 2 ^ 63"
    and srt: "sorted (map (\<lambda>t. sint (slot_at (window m) t)) (times_of k rs))"
  shows "\<exists>m' ds. record_all record_request lim b m rs = Inr (m', ds) \<and> length ds = length rs
    \<and> allowed_in_slot (window m) s (times_of k rs) (decisions_of k rs ds) =
        min (count_list (map (slot_at (window m)) (times_of k rs)) s) (nat (sint (lim k) + sint b))"
proof -
  obtain m' ds where r: "record_all record_request lim b m rs = Inr (m', ds)" "length ds = length rs"
    "window_run (threshold (lim k)) (lim k) b (window m) (get m k) (times_of k rs)
       = (get m' k, decisions_of k rs ds)"
    using record_all_steps[OF nz, of lim b rs] by metis
  with window_run_slot_sorted[OF rng len srt, of s "threshold (lim k)"] new show ?thesis
    by simp
qed

lemma final_counter:
  assumes nz: "window m \<noteq> 0" and new: "get m k = None"
    and rng: "in_int64 (sint (lim k) + sint b)" and len: "int (length (times_of k rs)) < 2 ^ 63"
    and ne: "times_of k rs \<noteq> []"
  shows "\<exists>m' ds w. record_all record_request lim b m rs = Inr (m', ds) \<and> get m' k = Some w
    \<and> window_abs (threshold (lim k)) (lim k) b (window m) (times_of k rs) w"
proof -
  obtain m' ds where r: "record_all record_request lim b m rs = Inr (m', ds)"
    "window_run (threshold (lim k)) (lim k) b (window m) (get m k) (times_of k rs)
       = (get m' k, decisions_of k rs ds)"
    using record_all_steps[OF nz, of lim b rs] by metis
  obtain w where "fst (window_run (threshold (lim k)) (lim k) b (window m) None (times_of k rs)) = Some w"
    "window_abs (threshold (lim k)) (lim k) b (window m) (times_of k rs) w"
    using window_run_abs[OF rng len ne] by blast
  with r new show ?thesis by auto
qed

end

section \<open>Dropping idle counters\<close>

text \<open>A counter is idle when nothing was recorded in the current slot and the last request is at
  least two windows in the past.\<close>

definition window_idle :: "int64 \<Rightarrow> go_time \<Rightarrow> window_state \<Rightarrow> bool" where
  "window_idle ws now w \<longleftrightarrow>
     slot_at ws now \<noteq> wSlot w \<and> 2 * ws * second_ns \<le>s time_Sub now (wLast w)"

text \<open>Requests and collections mixed, each with its clock reading. A collection examines one key and
  drops its counter when it is idle; a panic would end the run.\<close>

datatype map_event = Req go_time string | Gc go_time string

fun event_time :: "map_event \<Rightarrow> go_time" where
  "event_time (Req t k) = t"
| "event_time (Gc t k) = t"

fun requests_in :: "map_event list \<Rightarrow> (go_time \<times> string) list" where
  "requests_in [] = []"
| "requests_in (Req t k # es) = (t, k) # requests_in es"
| "requests_in (Gc t k # es) = requests_in es"

fun run_collected ::
  "('m \<Rightarrow> go_time \<Rightarrow> string \<Rightarrow> int64 \<Rightarrow> int64 \<Rightarrow> go_panic + 'm \<times> decision)
     \<Rightarrow> ('m \<Rightarrow> string \<Rightarrow> go_time \<Rightarrow> go_panic + 'm \<times> bool) \<Rightarrow> (string \<Rightarrow> int64) \<Rightarrow> int64
     \<Rightarrow> 'm \<Rightarrow> map_event list \<Rightarrow> go_panic + 'm \<times> decision list" where
  "run_collected rec drp lim b m [] = Inr (m, [])"
| "run_collected rec drp lim b m (Req t k # es) =
     (case rec m t k (lim k) b of
        Inl p \<Rightarrow> Inl p
      | Inr (m', d) \<Rightarrow>
          (case run_collected rec drp lim b m' es of
             Inl p \<Rightarrow> Inl p
           | Inr (m'', ds) \<Rightarrow> Inr (m'', d # ds)))"
| "run_collected rec drp lim b m (Gc t k # es) =
     (case drp m k t of
        Inl p \<Rightarrow> Inl p
      | Inr (m', _) \<Rightarrow> run_collected rec drp lim b m' es)"

text \<open>How a counter in a collected map stands to the one in a map that is never collected, when the
  clock shows second \<open>n\<close>: no slot lies in the future, a counter that is there has the same slot and
  count, and one that was dropped belonged to a slot already over. Decisions read nothing else.\<close>

definition collected_like :: "int \<Rightarrow> int \<Rightarrow> window_state option \<Rightarrow> window_state option \<Rightarrow> bool" where
  "collected_like ws n x y \<longleftrightarrow>
     (case y of
        None \<Rightarrow> x = None
      | Some v \<Rightarrow>
          (case x of
             None \<Rightarrow> sint (wSlot v) < n div ws
           | Some w \<Rightarrow> wSlot w = wSlot v \<and> wCount w = wCount v \<and> sint (wSlot v) \<le> n div ws))"

lemma collected_like_mono:
  assumes "collected_like ws n x y" and "n \<le> n'" and "0 < ws"
  shows "collected_like ws n' x y"
  using assms zdiv_mono1[OF assms(2,3)] by (auto simp: collected_like_def split: option.splits)

lemma collected_like_req:
  assumes like: "collected_like (sint ws) (sint (time_Unix t)) x y" and pos: "0 \<le> sint (time_Unix t)" "0 < sint ws"
  shows "snd (window_req thr l b ws x t) = snd (window_req thr l b ws y t)"
    and "collected_like (sint ws) (sint (time_Unix t))
           (Some (fst (window_req thr l b ws x t))) (Some (fst (window_req thr l b ws y t)))"
proof -
  have slot: "sint (slot_at ws t) = sint (time_Unix t) div sint ws"
    unfolding slot_at_def using pos by (rule sint_go_quot_nonneg)
  have ne: "wSlot v \<noteq> slot_at ws t" if "sint (wSlot v) < sint (time_Unix t) div sint ws" for v
    using that slot by auto
  have cnt: "wCount (fst (window_req thr l b ws x t)) = wCount (fst (window_req thr l b ws y t))"
    using like ne by (auto simp: collected_like_def window_req_def window_step_def window_new_def Let_def
        split: option.splits)
  then show "snd (window_req thr l b ws x t) = snd (window_req thr l b ws y t)"
    by (simp add: window_req_def Let_def)
  show "collected_like (sint ws) (sint (time_Unix t))
           (Some (fst (window_req thr l b ws x t))) (Some (fst (window_req thr l b ws y t)))"
    using cnt slot by (simp add: collected_like_def window_req_def window_step_def Let_def)
qed

lemma collected_like_drop:
  assumes "collected_like (sint ws) (sint (time_Unix t)) (Some w) y" and "window_idle ws t w"
    and "0 \<le> sint (time_Unix t)" and "0 < sint ws"
  shows "collected_like (sint ws) (sint (time_Unix t)) None y"
proof -
  have "sint (slot_at ws t) = sint (time_Unix t) div sint ws"
    unfolding slot_at_def using assms(3,4) by (rule sint_go_quot_nonneg)
  then have "sint (wSlot w) \<noteq> sint (time_Unix t) div sint ws"
    using assms(2) by (metis window_idle_def sint_eq_iff)
  with assms(1) show ?thesis by (auto simp: collected_like_def split: option.splits)
qed

text \<open>\<open>counter_gc\<close> adds the operation cleanup uses.\<close>

locale counter_gc = counter_map +
  fixes drop_idle :: "'a \<Rightarrow> string \<Rightarrow> go_time \<Rightarrow> go_panic + 'a \<times> bool"
  assumes drop_absent: "get m k = None \<Longrightarrow> drop_idle m k now = Inr (m, False)"
    and drop_live: "window m \<noteq> 0 \<Longrightarrow> get m k = Some w \<Longrightarrow> \<not> window_idle (window m) now w \<Longrightarrow>
      drop_idle m k now = Inr (m, False)"
    and drop_dead: "window m \<noteq> 0 \<Longrightarrow> get m k = Some w \<Longrightarrow> window_idle (window m) now w \<Longrightarrow>
      \<exists>m'. drop_idle m k now = Inr (m', True) \<and> window m' = window m \<and> get m' = (get m)(k := None)"
begin

text \<open>A drop never panics, and what it leaves is the map without the key or the map as it was.\<close>

lemma drop_idle_cases:
  assumes "window m \<noteq> 0"
  obtains (kept) "drop_idle m k now = Inr (m, False)"
      and "\<And>w. get m k = Some w \<Longrightarrow> \<not> window_idle (window m) now w"
  | (dropped) m' w where "drop_idle m k now = Inr (m', True)" and "window m' = window m"
      and "get m k = Some w" and "window_idle (window m) now w" and "get m' = (get m)(k := None)"
proof (cases "get m k")
  case None
  then show ?thesis using drop_absent[OF None] kept by simp
next
  case (Some w)
  then show ?thesis
    using drop_live[OF assms Some] drop_dead[OF assms Some] kept dropped
    by (cases "window_idle (window m) now w") auto
qed

text \<open>A request recorded in the slot of the drop, between the reading that chose the key and the
  drop itself, saves the counter.\<close>

lemma record_then_drop:
  assumes "window m \<noteq> 0" and "record_request m t k l b = Inr (m', d)"
    and "slot_at (window m) t = slot_at (window m) now"
  shows "drop_idle m' k now = Inr (m', False)"
proof -
  obtain m1 where m1: "record_request m t k l b =
      Inr (m1, snd (window_req (threshold l) l b (window m) (get m k) t))" "window m1 = window m"
    "get m1 = (get m)(k \<mapsto> fst (window_req (threshold l) l b (window m) (get m k) t))"
    using record_steps[OF assms(1), of t k l b] by blast
  then show ?thesis
    using assms by (intro drop_live) (auto simp: window_idle_def window_req_def window_step_def Let_def)
qed

text \<open>Collections, wherever they come in a run whose clock never goes back, change no decision.\<close>

lemma collections_invisible:
  assumes "0 < sint (window m)" and "window m' = window m"
    and "\<And>k. collected_like (sint (window m)) n (get m k) (get m' k)" and "0 \<le> n"
    and "sorted (n # map (\<lambda>e. sint (time_Unix (event_time e))) es)"
  shows "\<exists>m1 m2 ds. run_collected record_request drop_idle lim b m es = Inr (m1, ds)
    \<and> record_all record_request lim b m' (requests_in es) = Inr (m2, ds)"
  using assms
proof (induction es arbitrary: m m' n)
  case (Cons e es)
  have nz: "window m \<noteq> 0" "window m' \<noteq> 0" using Cons.prems(1,2) by auto
  let ?t = "sint (time_Unix (event_time e))"
  have t: "0 \<le> ?t" and srt: "sorted (?t # map (\<lambda>e. sint (time_Unix (event_time e))) es)"
    using Cons.prems(4,5) by auto
  have like: "collected_like (sint (window m)) ?t (get m k) (get m' k)" for k
    by (rule collected_like_mono[OF Cons.prems(3)]) (use Cons.prems(1,5) in auto)
  show ?case
  proof (cases e)
    case (Req u k)
    let ?q = "\<lambda>m. window_req (threshold (lim k)) (lim k) b (window m) (get m k) u"
    note step = collected_like_req[where x = "get m k" and y = "get m' k" and ws = "window m" and t = u
        and thr = "threshold (lim k)" and l = "lim k" and b = b]
    obtain m1 where m1: "record_request m u k (lim k) b = Inr (m1, snd (?q m))" "window m1 = window m"
      "get m1 = (get m)(k \<mapsto> fst (?q m))" using record_steps[OF nz(1), of u k "lim k" b] by blast
    obtain m2 where m2: "record_request m' u k (lim k) b = Inr (m2, snd (?q m'))" "window m2 = window m'"
      "get m2 = (get m')(k \<mapsto> fst (?q m'))" using record_steps[OF nz(2), of u k "lim k" b] by blast
    have "\<And>k. collected_like (sint (window m1)) ?t (get m1 k) (get m2 k)"
      using like step(2) t Cons.prems(1,2) m1 m2 Req by simp
    then obtain n1 n2 ds where "run_collected record_request drop_idle lim b m1 es = Inr (n1, ds)"
      "record_all record_request lim b m2 (requests_in es) = Inr (n2, ds)"
      using Cons.IH[of m1 m2 ?t] m1(2) m2(2) Cons.prems(1,2) t srt by auto
    moreover have "snd (?q m) = snd (?q m')"
      using step(1) like[of k] t Cons.prems(1,2) Req by simp
    ultimately show ?thesis using Req m1(1) m2(1) by simp
  next
    case (Gc u k)
    show ?thesis
    proof (rule drop_idle_cases[OF nz(1), of k u])
      assume "drop_idle m k u = Inr (m, False)"
      with Cons.IH[OF Cons.prems(1,2) like t srt] Gc show ?thesis by simp
    next
      fix m1 w
      assume m1: "drop_idle m k u = Inr (m1, True)" "window m1 = window m" "get m k = Some w"
        "window_idle (window m) u w" "get m1 = (get m)(k := None)"
      have "\<And>k. collected_like (sint (window m1)) ?t (get m1 k) (get m' k)"
        using like collected_like_drop[of "window m" u w "get m' k"] like[of k] m1 t Cons.prems(1) Gc by auto
      with Cons.IH[of m1 m' ?t] m1 Cons.prems(1,2) t srt Gc show ?thesis by simp
    qed
  qed
qed simp

end

end
