(* ===== verification/Counter.thy ===== *)
theory Counter
  imports Fixed_Window
begin

text \<open>
  \<^verbatim>\<open>internal/counter\<close>: the two maps of in-memory counters. A map is an association list with
  distinct keys (the invariant \<open>wf_known\<close>, \<open>wf_unknown\<close>); each operation below is one critical
  section of the Go code, run under the map's mutex, and \<^verbatim>\<open>now\<close>, which the code reads before taking
  the mutex, is an argument. \<^verbatim>\<open>Snapshot\<close> iterates over a Go map, whose order the language leaves
  open: the order is an argument too. The \<open>counter_map\<close> locale states what the limiter needs of
  either map; both maps interpret it.
\<close>

section \<open>Data\<close>

record known_counter =
  kFirstRequest :: go_time
  kLastRequest :: go_time
  kTotal :: int64
  kWindowCount :: int64
  kSlot :: int64
  kBurstHits :: int64
  kViolationHits :: int64

record known_map =
  kCounters :: "(string \<times> known_counter) list"
  kWindowS :: int64

record unknown_counter =
  uFirstRequest :: go_time
  uLastRequest :: go_time
  uTotal :: int64
  uWindowCount :: int64
  uSlot :: int64
  uBurstHits :: int64
  uAbuseHits :: int64

record unknown_map =
  uCounters :: "(string \<times> unknown_counter) list"
  uWindowS :: int64

definition UnknownKeyPrefix :: string where "UnknownKeyPrefix = ''key:''"
definition UnknownIPPrefix :: string where "UnknownIPPrefix = ''ip:''"

definition NewKnownMap :: "int64 \<Rightarrow> known_map" where
  "NewKnownMap windowSeconds = \<lparr>kCounters = [], kWindowS = windowSeconds\<rparr>"

definition NewUnknownMap :: "int64 \<Rightarrow> unknown_map" where
  "NewUnknownMap windowSeconds = \<lparr>uCounters = [], uWindowS = windowSeconds\<rparr>"

definition new_known :: "go_time \<Rightarrow> int64 \<Rightarrow> known_counter" where
  "new_known now slot =
     \<lparr>kFirstRequest = now, kLastRequest = now, kTotal = 0, kWindowCount = 0, kSlot = slot,
      kBurstHits = 0, kViolationHits = 0\<rparr>"

definition new_unknown :: "go_time \<Rightarrow> int64 \<Rightarrow> unknown_counter" where
  "new_unknown now slot =
     \<lparr>uFirstRequest = now, uLastRequest = now, uTotal = 0, uWindowCount = 0, uSlot = slot,
      uBurstHits = 0, uAbuseHits = 0\<rparr>"

section \<open>RecordRequest\<close>

text \<open>The counter's part of \<^verbatim>\<open>RecordRequest\<close>: slot change, increments, decision.\<close>

definition known_step ::
  "int64 \<Rightarrow> int64 \<Rightarrow> go_time \<Rightarrow> int64 \<Rightarrow> known_counter \<Rightarrow> known_counter \<times> decision" where
  "known_step limit burst now currentSlot c =
     (let c1 = (if currentSlot \<noteq> kSlot c
                then (if limit <s kWindowCount c then c\<lparr>kViolationHits := kViolationHits c + 1\<rparr> else c)
                       \<lparr>kSlot := currentSlot, kWindowCount := 0\<rparr>
                else c);
          c2 = c1\<lparr>kWindowCount := kWindowCount c1 + 1, kTotal := kTotal c1 + 1, kLastRequest := now\<rparr>;
          d = \<lparr>dAllowed = False, dWindowCount = kWindowCount c2, dLimit = limit, dBurst = burst,
               dInBurst = False\<rparr>
      in if limit + burst <s kWindowCount c2 then (c2, d)
         else if limit <s kWindowCount c2
              then (c2\<lparr>kBurstHits := kBurstHits c2 + 1\<rparr>, d\<lparr>dInBurst := True, dAllowed := True\<rparr>)
              else (c2, d\<lparr>dAllowed := True\<rparr>))"

definition KnownMap_RecordRequest ::
  "known_map \<Rightarrow> go_time \<Rightarrow> string \<Rightarrow> int64 \<Rightarrow> int64 \<Rightarrow> go_panic + known_map \<times> decision" where
  "KnownMap_RecordRequest m now key limit burst =
     (case go_div (time_Unix now) (kWindowS m) of
        Inl p \<Rightarrow> Inl p
      | Inr currentSlot \<Rightarrow>
          (let c = (case map_of (kCounters m) key of
                      None \<Rightarrow> new_known now currentSlot | Some c \<Rightarrow> c);
               (c', d) = known_step limit burst now currentSlot c
           in Inr (m\<lparr>kCounters := AList.update key c' (kCounters m)\<rparr>, d)))"

definition unknown_step ::
  "int64 \<Rightarrow> int64 \<Rightarrow> int64 \<Rightarrow> go_time \<Rightarrow> int64 \<Rightarrow> unknown_counter \<Rightarrow> unknown_counter \<times> decision" where
  "unknown_step globalLimit burst abuseMultiplier now currentSlot c =
     (let c1 = (if currentSlot \<noteq> uSlot c
                then (if globalLimit * abuseMultiplier <s uWindowCount c
                      then c\<lparr>uAbuseHits := uAbuseHits c + 1\<rparr> else c)
                       \<lparr>uSlot := currentSlot, uWindowCount := 0\<rparr>
                else c);
          c2 = c1\<lparr>uWindowCount := uWindowCount c1 + 1, uTotal := uTotal c1 + 1, uLastRequest := now\<rparr>;
          d = \<lparr>dAllowed = False, dWindowCount = uWindowCount c2, dLimit = globalLimit, dBurst = burst,
               dInBurst = False\<rparr>
      in if globalLimit + burst <s uWindowCount c2 then (c2, d)
         else if globalLimit <s uWindowCount c2
              then (c2\<lparr>uBurstHits := uBurstHits c2 + 1\<rparr>, d\<lparr>dInBurst := True, dAllowed := True\<rparr>)
              else (c2, d\<lparr>dAllowed := True\<rparr>))"

definition UnknownMap_RecordRequest ::
  "unknown_map \<Rightarrow> go_time \<Rightarrow> string \<Rightarrow> int64 \<Rightarrow> int64 \<Rightarrow> int64
     \<Rightarrow> go_panic + unknown_map \<times> decision" where
  "UnknownMap_RecordRequest m now key globalLimit burst abuseMultiplier =
     (case go_div (time_Unix now) (uWindowS m) of
        Inl p \<Rightarrow> Inl p
      | Inr currentSlot \<Rightarrow>
          (let c = (case map_of (uCounters m) key of
                      None \<Rightarrow> new_unknown now currentSlot | Some c \<Rightarrow> c);
               (c', d) = unknown_step globalLimit burst abuseMultiplier now currentSlot c
           in Inr (m\<lparr>uCounters := AList.update key c' (uCounters m)\<rparr>, d)))"

section \<open>Reading and deleting\<close>

definition KnownMap_Snapshot ::
  "((string \<times> known_counter) list \<Rightarrow> (string \<times> known_counter) list) \<Rightarrow> known_map
     \<Rightarrow> (string \<times> known_counter) list" where
  "KnownMap_Snapshot order m = order (kCounters m)"

definition UnknownMap_Snapshot ::
  "((string \<times> unknown_counter) list \<Rightarrow> (string \<times> unknown_counter) list) \<Rightarrow> unknown_map
     \<Rightarrow> (string \<times> unknown_counter) list" where
  "UnknownMap_Snapshot order m = order (uCounters m)"

text \<open>What Go guarantees of the iteration order: every entry once.\<close>

definition iteration_order :: "('a list \<Rightarrow> 'a list) \<Rightarrow> bool" where
  "iteration_order order \<longleftrightarrow> (\<forall>xs. mset (order xs) = mset xs)"

definition KnownMap_Get :: "known_map \<Rightarrow> string \<Rightarrow> known_counter option" where
  "KnownMap_Get m key = map_of (kCounters m) key"

definition UnknownMap_Get :: "unknown_map \<Rightarrow> string \<Rightarrow> unknown_counter option" where
  "UnknownMap_Get m key = map_of (uCounters m) key"

definition KnownMap_Delete :: "known_map \<Rightarrow> string \<Rightarrow> known_map" where
  "KnownMap_Delete m key = m\<lparr>kCounters := AList.delete key (kCounters m)\<rparr>"

definition UnknownMap_Delete :: "unknown_map \<Rightarrow> string \<Rightarrow> unknown_map" where
  "UnknownMap_Delete m key = m\<lparr>uCounters := AList.delete key (uCounters m)\<rparr>"

definition isInactive :: "int64 \<Rightarrow> go_time \<Rightarrow> go_time \<Rightarrow> int64 \<Rightarrow> go_panic + bool" where
  "isInactive slot lastRequest now windowS =
     (case go_div (time_Unix now) windowS of
        Inl p \<Rightarrow> Inl p
      | Inr currentSlot \<Rightarrow>
          Inr (if currentSlot = slot then False
               else 2 * windowS * second_ns \<le>s time_Sub now lastRequest))"

definition KnownMap_IsInactive :: "known_map \<Rightarrow> known_counter \<Rightarrow> go_time \<Rightarrow> go_panic + bool" where
  "KnownMap_IsInactive m c now = isInactive (kSlot c) (kLastRequest c) now (kWindowS m)"

definition UnknownMap_IsInactive :: "unknown_map \<Rightarrow> unknown_counter \<Rightarrow> go_time \<Rightarrow> go_panic + bool" where
  "UnknownMap_IsInactive m c now = isInactive (uSlot c) (uLastRequest c) now (uWindowS m)"

definition KnownMap_DeleteIfInactive ::
  "known_map \<Rightarrow> string \<Rightarrow> go_time \<Rightarrow> go_panic + known_map \<times> bool" where
  "KnownMap_DeleteIfInactive m key now =
     (case map_of (kCounters m) key of
        None \<Rightarrow> Inr (m, False)
      | Some c \<Rightarrow>
          (case isInactive (kSlot c) (kLastRequest c) now (kWindowS m) of
             Inl p \<Rightarrow> Inl p
           | Inr True \<Rightarrow> Inr (m\<lparr>kCounters := AList.delete key (kCounters m)\<rparr>, True)
           | Inr False \<Rightarrow> Inr (m, False)))"

definition UnknownMap_DeleteIfInactive ::
  "unknown_map \<Rightarrow> string \<Rightarrow> go_time \<Rightarrow> go_panic + unknown_map \<times> bool" where
  "UnknownMap_DeleteIfInactive m key now =
     (case map_of (uCounters m) key of
        None \<Rightarrow> Inr (m, False)
      | Some c \<Rightarrow>
          (case isInactive (uSlot c) (uLastRequest c) now (uWindowS m) of
             Inl p \<Rightarrow> Inl p
           | Inr True \<Rightarrow> Inr (m\<lparr>uCounters := AList.delete key (uCounters m)\<rparr>, True)
           | Inr False \<Rightarrow> Inr (m, False)))"

definition KnownMap_Len :: "known_map \<Rightarrow> int64" where
  "KnownMap_Len m = word_of_nat (length (kCounters m))"

definition UnknownMap_Len :: "unknown_map \<Rightarrow> int64" where
  "UnknownMap_Len m = word_of_nat (length (uCounters m))"

text \<open>The memory estimate: the fixed overheads and the size of either counter struct (two
  24-byte \<^verbatim>\<open>time.Time\<close> and five \<open>int64\<close>), plus the bytes of each key.\<close>

definition stringHeaderBytes :: int64 where "stringHeaderBytes = 16"
definition mapValuePtrBytes :: int64 where "mapValuePtrBytes = 8"
definition mapBucketAmortized :: int64 where "mapBucketAmortized = 17"
definition counterStructBytes :: int64 where "counterStructBytes = 2 * 24 + 5 * 8"

definition size_bytes :: "(string \<times> 'c) list \<Rightarrow> int64" where
  "size_bytes cs =
     (let perEntry = stringHeaderBytes + mapValuePtrBytes + mapBucketAmortized + counterStructBytes
      in foldl (\<lambda>total (k, _). total + (word_of_nat (length k) + perEntry)) 0 cs)"

definition KnownMap_SizeBytes :: "known_map \<Rightarrow> int64" where
  "KnownMap_SizeBytes m = size_bytes (kCounters m)"

definition UnknownMap_SizeBytes :: "unknown_map \<Rightarrow> int64" where
  "UnknownMap_SizeBytes m = size_bytes (uCounters m)"

lemmas [counter_defs] =
  KnownMap_Get_def UnknownMap_Get_def KnownMap_Delete_def UnknownMap_Delete_def
  KnownMap_Snapshot_def UnknownMap_Snapshot_def NewKnownMap_def NewUnknownMap_def

section \<open>Well-formed maps\<close>

definition wf_known :: "known_map \<Rightarrow> bool" where
  "wf_known m \<longleftrightarrow> distinct (keys_of (kCounters m)) \<and> kWindowS m \<noteq> 0"

definition wf_unknown :: "unknown_map \<Rightarrow> bool" where
  "wf_unknown m \<longleftrightarrow> distinct (keys_of (uCounters m)) \<and> uWindowS m \<noteq> 0"

section \<open>Both maps are fixed-window counter maps\<close>

definition known_view :: "known_counter \<Rightarrow> window_state" where
  "known_view c =
     \<lparr>wFirst = kFirstRequest c, wLast = kLastRequest c, wTotal = kTotal c, wCount = kWindowCount c,
      wSlot = kSlot c, wBurst = kBurstHits c, wHits = kViolationHits c\<rparr>"

definition unknown_view :: "unknown_counter \<Rightarrow> window_state" where
  "unknown_view c =
     \<lparr>wFirst = uFirstRequest c, wLast = uLastRequest c, wTotal = uTotal c, wCount = uWindowCount c,
      wSlot = uSlot c, wBurst = uBurstHits c, wHits = uAbuseHits c\<rparr>"

definition known_get :: "known_map \<Rightarrow> string \<Rightarrow> window_state option" where
  "known_get m k = map_option known_view (KnownMap_Get m k)"

definition unknown_get :: "unknown_map \<Rightarrow> string \<Rightarrow> window_state option" where
  "unknown_get m k = map_option unknown_view (UnknownMap_Get m k)"

lemma word_not_sle: "\<not> (a \<le>s b) \<longleftrightarrow> b <s (a :: int64)"
  by (auto simp: word_sle_eq word_sless_alt)

lemma known_step_view:
  "known_view (fst (known_step l b now slot c)) = window_step l l b now slot (known_view c)"
  "snd (known_step l b now slot c) = decide_count l b (kWindowCount (fst (known_step l b now slot c)))"
  by (auto simp: known_step_def window_step_def known_view_def decide_count_def Let_def
      word_sle_eq word_sless_alt)

lemma unknown_step_view:
  "unknown_view (fst (unknown_step l b am now slot c)) =
     window_step (l * am) l b now slot (unknown_view c)"
  "snd (unknown_step l b am now slot c) =
     decide_count l b (uWindowCount (fst (unknown_step l b am now slot c)))"
  by (auto simp: unknown_step_def window_step_def unknown_view_def decide_count_def Let_def
      word_sle_eq word_sless_alt)

lemma view_new:
  "known_view (new_known now slot) = window_new now slot"
  "unknown_view (new_unknown now slot) = window_new now slot"
  by (simp_all add: known_view_def unknown_view_def new_known_def new_unknown_def window_new_def)

lemma view_simps [simp]:
  "wSlot (known_view c) = kSlot c" "wLast (known_view c) = kLastRequest c"
  "wCount (known_view c) = kWindowCount c" "wTotal (known_view c) = kTotal c"
  "wSlot (unknown_view u) = uSlot u" "wLast (unknown_view u) = uLastRequest u"
  "wCount (unknown_view u) = uWindowCount u" "wTotal (unknown_view u) = uTotal u"
  "wHits (unknown_view u) = uAbuseHits u" "wHits (known_view c) = kViolationHits c"
  by (simp_all add: known_view_def unknown_view_def)

lemma isInactive_window:
  "windowS \<noteq> 0 \<Longrightarrow> isInactive slot lastRequest now windowS =
     Inr (slot_at windowS now \<noteq> slot \<and> 2 * windowS * second_ns \<le>s time_Sub now lastRequest)"
  by (auto simp: isInactive_def go_div_nz slot_at_def)

lemma known_record_steps:
  assumes nz: "kWindowS m \<noteq> 0"
  shows "\<exists>m'. KnownMap_RecordRequest m now k l b =
           Inr (m', snd (window_req l l b (kWindowS m) (known_get m k) now))
       \<and> kWindowS m' = kWindowS m
       \<and> known_get m' = (known_get m)(k \<mapsto> fst (window_req l l b (kWindowS m) (known_get m k) now))"
proof -
  define s where "s = slot_at (kWindowS m) now"
  define c where "c = (case map_of (kCounters m) k of None \<Rightarrow> new_known now s | Some c \<Rightarrow> c)"
  define st where "st = known_step l b now s c"
  have view: "(case known_get m k of None \<Rightarrow> window_new now s | Some w \<Rightarrow> w) = known_view c"
    by (simp add: known_get_def KnownMap_Get_def view_new c_def split: option.split)
  have req: "window_req l l b (kWindowS m) (known_get m k) now = (known_view (fst st), snd st)"
    by (simp add: window_req_def Let_def view st_def known_step_view(2)
        flip: s_def known_step_view(1))
  have "KnownMap_RecordRequest m now k l b =
      Inr (m\<lparr>kCounters := AList.update k (fst st) (kCounters m)\<rparr>, snd st)"
    using nz unfolding st_def c_def s_def slot_at_def KnownMap_RecordRequest_def
    by (simp add: go_div_nz Let_def case_prod_beta)
  then show ?thesis
    unfolding req by (auto simp: known_get_def KnownMap_Get_def fun_eq_iff)
qed

lemma unknown_record_steps:
  assumes nz: "uWindowS m \<noteq> 0"
  shows "\<exists>m'. UnknownMap_RecordRequest m now k l b am =
           Inr (m', snd (window_req (l * am) l b (uWindowS m) (unknown_get m k) now))
       \<and> uWindowS m' = uWindowS m
       \<and> unknown_get m' =
           (unknown_get m)(k \<mapsto> fst (window_req (l * am) l b (uWindowS m) (unknown_get m k) now))"
proof -
  define s where "s = slot_at (uWindowS m) now"
  define c where "c = (case map_of (uCounters m) k of None \<Rightarrow> new_unknown now s | Some c \<Rightarrow> c)"
  define st where "st = unknown_step l b am now s c"
  have view: "(case unknown_get m k of None \<Rightarrow> window_new now s | Some w \<Rightarrow> w) = unknown_view c"
    by (simp add: unknown_get_def UnknownMap_Get_def view_new c_def split: option.split)
  have req: "window_req (l * am) l b (uWindowS m) (unknown_get m k) now = (unknown_view (fst st), snd st)"
    by (simp add: window_req_def Let_def view st_def unknown_step_view(2)
        flip: s_def unknown_step_view(1))
  have "UnknownMap_RecordRequest m now k l b am =
      Inr (m\<lparr>uCounters := AList.update k (fst st) (uCounters m)\<rparr>, snd st)"
    using nz unfolding st_def c_def s_def slot_at_def UnknownMap_RecordRequest_def
    by (simp add: go_div_nz Let_def case_prod_beta)
  then show ?thesis
    unfolding req by (auto simp: unknown_get_def UnknownMap_Get_def fun_eq_iff)
qed

interpretation km: counter_gc known_get KnownMap_RecordRequest kWindowS "\<lambda>l. l" KnownMap_DeleteIfInactive
proof (unfold_locales, goal_cases)
  case (2 m now k l b)
  then show ?case by (rule known_record_steps)
qed (auto simp: KnownMap_RecordRequest_def KnownMap_DeleteIfInactive_def known_get_def KnownMap_Get_def
      isInactive_window window_idle_def fun_eq_iff)

interpretation um: counter_gc unknown_get "\<lambda>m now k l b. UnknownMap_RecordRequest m now k l b am"
    uWindowS "\<lambda>l. l * am" UnknownMap_DeleteIfInactive for am
proof (unfold_locales, goal_cases)
  case (2 m now k l b)
  then show ?case by (rule unknown_record_steps)
qed (auto simp: UnknownMap_RecordRequest_def UnknownMap_DeleteIfInactive_def unknown_get_def
      UnknownMap_Get_def isInactive_window window_idle_def fun_eq_iff)

end
