(* ===== verification/Counter_Correct.thy ===== *)
theory Counter_Correct
  imports Counter
begin

text \<open>
  Correctness of the counter maps: how many requests a slot admits, what the counter says about
  the requests it saw, what dropping idle counters may change, the overflow of \<open>limit + burst\<close>, and
  the memory estimate. The fixed-window argument is in \<open>Fixed_Window\<close>; here it is applied through
  the interpretations \<open>km\<close> and \<open>um\<close>.
\<close>

section \<open>Well-formedness is kept\<close>

lemma wf_known_new: "w \<noteq> 0 \<Longrightarrow> wf_known (NewKnownMap w)"
  by (simp add: wf_known_def NewKnownMap_def)

lemma wf_unknown_new: "w \<noteq> 0 \<Longrightarrow> wf_unknown (NewUnknownMap w)"
  by (simp add: wf_unknown_def NewUnknownMap_def)

lemma wf_known_record:
  "wf_known m \<Longrightarrow> KnownMap_RecordRequest m now k l b = Inr (m', d) \<Longrightarrow> wf_known m'"
  by (auto simp: wf_known_def KnownMap_RecordRequest_def Let_def case_prod_beta split: sum.splits)

lemma wf_unknown_record:
  "wf_unknown m \<Longrightarrow> UnknownMap_RecordRequest m now k l b am = Inr (m', d) \<Longrightarrow> wf_unknown m'"
  by (auto simp: wf_unknown_def UnknownMap_RecordRequest_def Let_def case_prod_beta split: sum.splits)

lemma wf_known_delete [simp]: "wf_known m \<Longrightarrow> wf_known (KnownMap_Delete m k)"
  by (simp add: wf_known_def KnownMap_Delete_def)

lemma wf_known_drop:
  "wf_known m \<Longrightarrow> KnownMap_DeleteIfInactive m k now = Inr (m', x) \<Longrightarrow> wf_known m'"
  by (auto simp: wf_known_def KnownMap_DeleteIfInactive_def split: option.splits sum.splits bool.splits)

lemma wf_unknown_drop:
  "wf_unknown m \<Longrightarrow> UnknownMap_DeleteIfInactive m k now = Inr (m', x) \<Longrightarrow> wf_unknown m'"
  by (auto simp: wf_unknown_def UnknownMap_DeleteIfInactive_def
      split: option.splits sum.splits bool.splits)

lemma known_get_None [simp]: "known_get m k = None \<longleftrightarrow> KnownMap_Get m k = None"
  by (simp add: known_get_def)

lemma unknown_get_None [simp]: "unknown_get m k = None \<longleftrightarrow> UnknownMap_Get m k = None"
  by (simp add: unknown_get_def)

lemma known_get_Some: "known_get m k = Some w \<longleftrightarrow> (\<exists>c. KnownMap_Get m k = Some c \<and> w = known_view c)"
  by (auto simp: known_get_def)

lemma unknown_get_Some:
  "unknown_get m k = Some w \<longleftrightarrow> (\<exists>c. UnknownMap_Get m k = Some c \<and> w = unknown_view c)"
  by (auto simp: unknown_get_def)

section \<open>Admission\<close>

text \<open>C16: admission of known keys. Whatever requests of other keys are mixed in, a key that starts
  without a counter and whose slots never go back gets, in each slot, exactly its first
  \<open>limit + burst\<close> requests allowed (all of them when there are fewer), provided \<open>limit + burst\<close>
  fits 64 bits. No request panics when the window length is not zero.\<close>

theorem known_admission:
  assumes "kWindowS m \<noteq> 0" and "KnownMap_Get m k = None"
    and "in_int64 (sint (lim k) + sint b)" and "int (length (times_of k rs)) < 2 ^ 63"
    and "sorted (map (\<lambda>t. sint (slot_at (kWindowS m) t)) (times_of k rs))"
  shows "\<exists>m' ds. record_all KnownMap_RecordRequest lim b m rs = Inr (m', ds) \<and> length ds = length rs
    \<and> allowed_in_slot (kWindowS m) s (times_of k rs) (decisions_of k rs ds) =
        min (count_list (map (slot_at (kWindowS m)) (times_of k rs)) s) (nat (sint (lim k) + sint b))"
  using assms km.admission[of m k lim b rs s] by simp

definition sample_requests :: "(go_time \<times> string) list" where
  "sample_requests =
     [(unix_time 120, ''a''), (unix_time 121, ''a''), (unix_time 122, ''b''), (unix_time 123, ''a''),
      (unix_time 124, ''a''), (unix_time 185, ''a'')]"

theorem known_admission_witness:
  "\<exists>m' ds. record_all KnownMap_RecordRequest (\<lambda>_. 2) 1 (NewKnownMap 60) sample_requests = Inr (m', ds)
    \<and> length ds = length sample_requests
    \<and> allowed_in_slot 60 2 (times_of ''a'' sample_requests) (decisions_of ''a'' sample_requests ds) = 3"
proof -
  have eval: "count_list (map (slot_at 60) (times_of ''a'' sample_requests)) 2 = 4"
    and srt: "sorted (map (\<lambda>t. sint (slot_at 60 t)) (times_of ''a'' sample_requests))"
    and len: "int (length (times_of ''a'' sample_requests)) < 2 ^ 63"
    by code_simp+
  show ?thesis
    using known_admission[of "NewKnownMap 60" "''a''" "\<lambda>_. 2" 1 sample_requests 2] srt len
    by (simp add: eval counter_defs)
qed

text \<open>C17: admission of unknown keys and addresses, with the global limit: the same bound.\<close>

theorem unknown_admission:
  assumes "uWindowS m \<noteq> 0" and "UnknownMap_Get m k = None"
    and "in_int64 (sint l + sint b)" and "int (length (times_of k rs)) < 2 ^ 63"
    and "sorted (map (\<lambda>t. sint (slot_at (uWindowS m) t)) (times_of k rs))"
  shows "\<exists>m' ds. record_all (\<lambda>m now k l b. UnknownMap_RecordRequest m now k l b am) (\<lambda>_. l) b m rs
                  = Inr (m', ds) \<and> length ds = length rs
    \<and> allowed_in_slot (uWindowS m) s (times_of k rs) (decisions_of k rs ds) =
        min (count_list (map (slot_at (uWindowS m)) (times_of k rs)) s) (nat (sint l + sint b))"
  using assms um.admission[of m k "\<lambda>_. l" b rs am s] by simp

theorem unknown_admission_witness:
  "\<exists>m' ds. record_all (\<lambda>m now k l b. UnknownMap_RecordRequest m now k l b 10) (\<lambda>_. 2) 1
      (NewUnknownMap 60) sample_requests = Inr (m', ds)
    \<and> length ds = length sample_requests
    \<and> allowed_in_slot 60 2 (times_of ''a'' sample_requests) (decisions_of ''a'' sample_requests ds) = 3"
proof -
  have eval: "count_list (map (slot_at 60) (times_of ''a'' sample_requests)) 2 = 4"
    and srt: "sorted (map (\<lambda>t. sint (slot_at 60 t)) (times_of ''a'' sample_requests))"
    and len: "int (length (times_of ''a'' sample_requests)) < 2 ^ 63"
    by code_simp+
  show ?thesis
    using unknown_admission[of "NewUnknownMap 60" "''a''" 2 1 sample_requests 10 2] srt len
    by (simp add: eval counter_defs)
qed

section \<open>What a counter says\<close>

text \<open>The fields of a counter after a stream of requests, given the newest-first runs of their
  slots.\<close>

text \<open>A known counter tells the truth about the requests it saw. First and last request time,
  total, slot and count of the current window are those of the stream; \<^verbatim>\<open>BurstHits\<close> counts the
  requests past the limit that the burst still allowed, and \<^verbatim>\<open>ViolationHits\<close> the closed windows with
  more requests than the limit. No monotonicity of the clock is needed: a window is a run of
  requests with equal slot numbers.\<close>

theorem known_counter_history:
  assumes "kWindowS m \<noteq> 0" and "KnownMap_Get m k = None"
    and "in_int64 (sint (lim k) + sint b)" and "int (length (times_of k rs)) < 2 ^ 63"
    and "times_of k rs \<noteq> []"
  shows "\<exists>m' ds c. record_all KnownMap_RecordRequest lim b m rs = Inr (m', ds)
    \<and> KnownMap_Get m' k = Some c
    \<and> kFirstRequest c = hd (times_of k rs) \<and> kLastRequest c = last (times_of k rs)
    \<and> sint (kTotal c) = int (length (times_of k rs))
    \<and> (kSlot c, nat (sint (kWindowCount c))) = hd (runs_of (map (slot_at (kWindowS m)) (times_of k rs)))
    \<and> sint (kBurstHits c) = int (burst_total (sint (lim k)) (sint b)
                                (runs_of (map (slot_at (kWindowS m)) (times_of k rs))))
    \<and> sint (kViolationHits c) = int (length (filter (\<lambda>(s, n). sint (lim k) < int n)
                                (tl (runs_of (map (slot_at (kWindowS m)) (times_of k rs))))))"
proof -
  obtain m' ds w where w: "record_all KnownMap_RecordRequest lim b m rs = Inr (m', ds)"
    "known_get m' k = Some w" "window_abs (lim k) (lim k) b (kWindowS m) (times_of k rs) w"
    using km.final_counter[of m k lim b rs] assms by auto
  from w(2) obtain c where "KnownMap_Get m' k = Some c" "w = known_view c"
    by (auto simp: known_get_Some)
  with w show ?thesis
    by (auto simp: window_abs_def Let_def known_view_def hits_total_def prod_eq_iff)
qed

theorem known_counter_history_witness:
  "\<exists>m' ds c. record_all KnownMap_RecordRequest (\<lambda>_. 2) 1 (NewKnownMap 60) sample_requests = Inr (m', ds)
    \<and> KnownMap_Get m' ''a'' = Some c \<and> kFirstRequest c = unix_time 120
    \<and> kLastRequest c = unix_time 185 \<and> sint (kTotal c) = 5
    \<and> (kSlot c, nat (sint (kWindowCount c))) = (3, 1)
    \<and> sint (kBurstHits c) = 1 \<and> sint (kViolationHits c) = 1"
proof -
  let ?ts = "times_of ''a'' sample_requests"
  have eval: "runs_of (map (slot_at 60) ?ts) = [(3, 1), (2, 4)]" "hd ?ts = unix_time 120"
    "last ?ts = unix_time 185" "length ?ts = 5" "?ts \<noteq> []" "burst_total 2 1 [(3 :: int64, Suc 0), (2, 4)] = 1"
    by code_simp+
  show ?thesis
    using known_counter_history[of "NewKnownMap 60" "''a''" "\<lambda>_. 2" 1 sample_requests]
    by (simp add: eval counter_defs)
qed

text \<open>C18: an unknown counter tells the truth about the requests it saw: as for known counters, with
  \<^verbatim>\<open>AbuseHits\<close> counting the closed windows with more than \<open>globalLimit * abuseMultiplier\<close> requests (the
  64-bit product the code compares with).\<close>

theorem unknown_counter_history:
  assumes "uWindowS m \<noteq> 0" and "UnknownMap_Get m k = None"
    and "in_int64 (sint l + sint b)" and "int (length (times_of k rs)) < 2 ^ 63"
    and "times_of k rs \<noteq> []"
  shows "\<exists>m' ds c. record_all (\<lambda>m now k l b. UnknownMap_RecordRequest m now k l b am) (\<lambda>_. l) b m rs
                    = Inr (m', ds)
    \<and> UnknownMap_Get m' k = Some c
    \<and> uFirstRequest c = hd (times_of k rs) \<and> uLastRequest c = last (times_of k rs)
    \<and> sint (uTotal c) = int (length (times_of k rs))
    \<and> (uSlot c, nat (sint (uWindowCount c))) = hd (runs_of (map (slot_at (uWindowS m)) (times_of k rs)))
    \<and> sint (uBurstHits c) = int (burst_total (sint l) (sint b)
                                (runs_of (map (slot_at (uWindowS m)) (times_of k rs))))
    \<and> sint (uAbuseHits c) = int (length (filter (\<lambda>(s, n). sint (l * am) < int n)
                                (tl (runs_of (map (slot_at (uWindowS m)) (times_of k rs))))))"
proof -
  obtain m' ds w where w: "record_all (\<lambda>m now k l b. UnknownMap_RecordRequest m now k l b am) (\<lambda>_. l) b m rs
      = Inr (m', ds)"
    "unknown_get m' k = Some w" "window_abs (l * am) l b (uWindowS m) (times_of k rs) w"
    using um.final_counter[of m k "\<lambda>_. l" b rs am] assms by auto
  from w(2) obtain c where "UnknownMap_Get m' k = Some c" "w = unknown_view c"
    by (auto simp: unknown_get_Some)
  with w show ?thesis
    by (auto simp: window_abs_def Let_def unknown_view_def hits_total_def prod_eq_iff)
qed

theorem unknown_counter_history_witness:
  "\<exists>m' ds c. record_all (\<lambda>m now k l b. UnknownMap_RecordRequest m now k l b 3) (\<lambda>_. 1) 1
      (NewUnknownMap 60) sample_requests = Inr (m', ds)
    \<and> UnknownMap_Get m' ''a'' = Some c \<and> uFirstRequest c = unix_time 120
    \<and> uLastRequest c = unix_time 185 \<and> sint (uTotal c) = 5
    \<and> (uSlot c, nat (sint (uWindowCount c))) = (3, 1)
    \<and> sint (uBurstHits c) = 1 \<and> sint (uAbuseHits c) = 1"
proof -
  let ?ts = "times_of ''a'' sample_requests"
  have eval: "runs_of (map (slot_at 60) ?ts) = [(3, 1), (2, 4)]" "hd ?ts = unix_time 120"
    "last ?ts = unix_time 185" "length ?ts = 5" "?ts \<noteq> []" "burst_total 1 1 [(3 :: int64, Suc 0), (2, 4)] = 1"
    by code_simp+
  show ?thesis
    using unknown_counter_history[of "NewUnknownMap 60" "''a''" 1 1 sample_requests 3]
    by (simp add: eval counter_defs)
qed

section \<open>Dropping idle counters\<close>

definition idle_map :: unknown_map where
  "idle_map = \<lparr>uCounters = [(''ip:1.2.3.4'',
     \<lparr>uFirstRequest = unix_time 120, uLastRequest = unix_time 130, uTotal = 9, uWindowCount = 9, uSlot = 2,
      uBurstHits = 0, uAbuseHits = 0\<rparr>)], uWindowS = 60\<rparr>"

text \<open>C23: garbage collection of idle counters is invisible to rate limiting. Take any run of
  requests of any keys over a map that starts empty, with \<^verbatim>\<open>DeleteIfInactive\<close> called for any keys
  at any points between them, on clock readings that never go back. It panics nowhere, and every
  request gets the decision it gets when nothing is ever collected. This holds for both maps. (The
  counters' statistics do start anew; only the decisions are the same.)\<close>

theorem gc_invisible:
  assumes "0 < sint ws" and "sorted (0 # map (\<lambda>e. sint (time_Unix (event_time e))) es)"
  shows "(\<exists>m1 m2 ds.
        run_collected KnownMap_RecordRequest KnownMap_DeleteIfInactive lim b (NewKnownMap ws) es = Inr (m1, ds)
      \<and> record_all KnownMap_RecordRequest lim b (NewKnownMap ws) (requests_in es) = Inr (m2, ds))
    \<and> (\<exists>m1 m2 ds.
        run_collected (\<lambda>m now k l b. UnknownMap_RecordRequest m now k l b am) UnknownMap_DeleteIfInactive
          lim b (NewUnknownMap ws) es = Inr (m1, ds)
      \<and> record_all (\<lambda>m now k l b. UnknownMap_RecordRequest m now k l b am) lim b (NewUnknownMap ws)
          (requests_in es) = Inr (m2, ds))"
proof
  show "\<exists>m1 m2 ds.
        run_collected KnownMap_RecordRequest KnownMap_DeleteIfInactive lim b (NewKnownMap ws) es = Inr (m1, ds)
      \<and> record_all KnownMap_RecordRequest lim b (NewKnownMap ws) (requests_in es) = Inr (m2, ds)"
    using assms by (intro km.collections_invisible[where n = 0])
      (auto simp: NewKnownMap_def collected_like_def known_get_def KnownMap_Get_def)
  show "\<exists>m1 m2 ds.
        run_collected (\<lambda>m now k l b. UnknownMap_RecordRequest m now k l b am) UnknownMap_DeleteIfInactive
          lim b (NewUnknownMap ws) es = Inr (m1, ds)
      \<and> record_all (\<lambda>m now k l b. UnknownMap_RecordRequest m now k l b am) lim b (NewUnknownMap ws)
          (requests_in es) = Inr (m2, ds)"
    using assms by (intro um.collections_invisible[where n = 0])
      (auto simp: NewUnknownMap_def collected_like_def unknown_get_def UnknownMap_Get_def)
qed

text \<open>A counter examined while live and dropped when idle: the two requests of its first slot use
  up the limit of one, the third, after the drop, is the first of its slot.\<close>

definition collected_run :: "map_event list" where
  "collected_run =
     [Req (unix_time 130) ''a'', Gc (unix_time 131) ''a'', Req (unix_time 132) ''a'',
      Gc (unix_time 290) ''a'', Req (unix_time 300) ''a'']"

theorem gc_invisible_witness:
  "\<exists>m1 m2 ds.
     run_collected (\<lambda>m now k l b. UnknownMap_RecordRequest m now k l b 10) UnknownMap_DeleteIfInactive
        (\<lambda>_. 1) 0 (NewUnknownMap 60) collected_run = Inr (m1, ds)
   \<and> record_all (\<lambda>m now k l b. UnknownMap_RecordRequest m now k l b 10) (\<lambda>_. 1) 0 (NewUnknownMap 60)
        (requests_in collected_run) = Inr (m2, ds)
   \<and> map dAllowed ds = [True, False, True] \<and> map fst (uCounters m1) = [''a''] \<and> m1 \<noteq> m2"
proof -
  have srt: "sorted (0 # map (\<lambda>e. sint (time_Unix (event_time e))) collected_run)" by code_simp
  have run: "run_collected (\<lambda>m now k l b. UnknownMap_RecordRequest m now k l b 10) UnknownMap_DeleteIfInactive
        (\<lambda>_. 1) 0 (NewUnknownMap 60) collected_run = Inr (m1, ds) \<Longrightarrow>
      map dAllowed ds = [True, False, True] \<and> map (\<lambda>(k, c). (k, uTotal c)) (uCounters m1) = [(''a'', 1)]"
    for m1 ds
  proof -
    have "map_sum id (\<lambda>(m, ds). (map (\<lambda>(k, c). (k, uTotal c)) (uCounters m), map dAllowed ds))
      (run_collected (\<lambda>m now k l b. UnknownMap_RecordRequest m now k l b 10) UnknownMap_DeleteIfInactive
        (\<lambda>_. 1) 0 (NewUnknownMap 60) collected_run) = Inr ([(''a'', 1)], [True, False, True])"
      by code_simp
    then show "run_collected (\<lambda>m now k l b. UnknownMap_RecordRequest m now k l b 10) UnknownMap_DeleteIfInactive
        (\<lambda>_. 1) 0 (NewUnknownMap 60) collected_run = Inr (m1, ds) \<Longrightarrow> ?thesis" by simp
  qed
  have kept: "record_all (\<lambda>m now k l b. UnknownMap_RecordRequest m now k l b 10) (\<lambda>_. 1) 0 (NewUnknownMap 60)
        (requests_in collected_run) = Inr (m2, ds) \<Longrightarrow> map (\<lambda>(k, c). (k, uTotal c)) (uCounters m2) = [(''a'', 3)]"
    for m2 ds
  proof -
    have "map_sum id (\<lambda>(m, ds). map (\<lambda>(k, c). (k, uTotal c)) (uCounters m))
      (record_all (\<lambda>m now k l b. UnknownMap_RecordRequest m now k l b 10) (\<lambda>_. 1) 0 (NewUnknownMap 60)
        (requests_in collected_run)) = Inr [(''a'', 3)]"
      by code_simp
    then show "record_all (\<lambda>m now k l b. UnknownMap_RecordRequest m now k l b 10) (\<lambda>_. 1) 0 (NewUnknownMap 60)
        (requests_in collected_run) = Inr (m2, ds) \<Longrightarrow> ?thesis" by simp
  qed
  have fsts: "map fst xs = [''a'']" if "map (\<lambda>(k, c). (k, uTotal c)) xs = [(''a'', i)]" for xs i
    using that by auto
  show ?thesis
    using gc_invisible[OF _ srt, of 60 "\<lambda>_. 1" 0 10] run kept fsts by fastforce
qed

text \<open>C24: a request that lands between the snapshot and the delete saves its counter. Whatever the
  counter looked like when cleanup chose to delete it, once a request is recorded in the slot of
  cleanup's clock reading, \<^verbatim>\<open>DeleteIfInactive\<close> keeps it, for both maps.\<close>

theorem recorded_counter_survives:
  assumes "kWindowS m \<noteq> 0" and "KnownMap_RecordRequest m t k l b = Inr (m', d)"
    and "slot_at (kWindowS m) t = slot_at (kWindowS m) now"
    and "uWindowS u \<noteq> 0" and "UnknownMap_RecordRequest u t' k l b am = Inr (u', d')"
    and "slot_at (uWindowS u) t' = slot_at (uWindowS u) now"
  shows "KnownMap_DeleteIfInactive m' k now = Inr (m', False)
    \<and> UnknownMap_DeleteIfInactive u' k now = Inr (u', False)"
  using km.record_then_drop[OF assms(1-3)] um.record_then_drop[OF assms(4-6)] by simp

theorem recorded_counter_survives_witness:
  "\<exists>m' u'. KnownMap_DeleteIfInactive m' ''ip:1.2.3.4'' (unix_time 310) = Inr (m', False)
     \<and> UnknownMap_DeleteIfInactive u' ''ip:1.2.3.4'' (unix_time 310) = Inr (u', False)
     \<and> UnknownMap_DeleteIfInactive idle_map ''ip:1.2.3.4'' (unix_time 310) =
         Inr (\<lparr>uCounters = [], uWindowS = 60\<rparr>, True)"
proof -
  have nz: "kWindowS (NewKnownMap 60) \<noteq> 0" "uWindowS idle_map \<noteq> 0"
    by (simp_all add: NewKnownMap_def idle_map_def)
  have slots: "slot_at (kWindowS (NewKnownMap 60)) (unix_time 301) = slot_at (kWindowS (NewKnownMap 60)) (unix_time 310)"
    "slot_at (uWindowS idle_map) (unix_time 301) = slot_at (uWindowS idle_map) (unix_time 310)"
    and idle: "UnknownMap_DeleteIfInactive idle_map ''ip:1.2.3.4'' (unix_time 310) =
      Inr (\<lparr>uCounters = [], uWindowS = 60\<rparr>, True)"
    by code_simp+
  obtain m' d where k: "KnownMap_RecordRequest (NewKnownMap 60) (unix_time 301) ''ip:1.2.3.4'' 1 0 = Inr (m', d)"
    using km.record_steps[OF nz(1)] by blast
  obtain u' d' where u: "UnknownMap_RecordRequest idle_map (unix_time 301) ''ip:1.2.3.4'' 1 0 10 = Inr (u', d')"
    using um.record_steps[OF nz(2)] by blast
  show ?thesis
    using recorded_counter_survives[OF nz(1) k slots(1) nz(2) u slots(2)] idle by blast
qed

section \<open>Overflow of limit + burst\<close>

text \<open>An individual limit so large that \<open>limit + burst\<close> passes the largest 64-bit integer
  blocks its key completely. The sum wraps to a negative number, so already the first request of a
  fresh counter is refused, although the limit stored for the key was meant to be the most generous
  one.\<close>

theorem huge_limit_blocks:
  assumes "kWindowS m \<noteq> 0" and "KnownMap_Get m k = None" and "max_int64 < sint limit + sint burst"
  shows "\<exists>m' d. KnownMap_RecordRequest m now k limit burst = Inr (m', d) \<and> \<not> dAllowed d"
proof -
  have "sint (limit + burst) = sint limit + sint burst - 2 ^ 64"
  proof -
    have "limit + burst = word_of_int (sint limit + sint burst - 2 ^ 64)"
      by simp
    moreover have "in_int64 (sint limit + sint burst - 2 ^ 64)"
      using assms(3) sint_in_int64[of limit] sint_in_int64[of burst] by simp
    ultimately show ?thesis by (simp only: sint_word_of_int)
  qed
  then have "sint (limit + burst) < 0"
    using sint_in_int64(2)[of limit] sint_in_int64(2)[of burst] by simp
  then show ?thesis
    using km.record_steps[OF assms(1), of now k limit burst] assms(2)
    by (auto simp: known_get_def window_req_def window_step_def window_new_def decide_count_def Let_def word_sle_eq)
qed

theorem huge_limit_blocks_witness:
  "\<exists>m' d. KnownMap_RecordRequest (NewKnownMap 1) (unix_time 7) ''vip'' 9223372036854775807 20 = Inr (m', d)
     \<and> \<not> dAllowed d"
  by (rule huge_limit_blocks) (simp_all add: counter_defs)

section \<open>The memory estimate\<close>

lemma size_bytes_foldl:
  "sint acc + (\<Sum>(k, c) \<leftarrow> cs. int (length k) + 129) < 2 ^ 63 \<Longrightarrow> 0 \<le> sint acc \<Longrightarrow>
   sint (foldl (\<lambda>total (k, _). total + (word_of_nat (length k) + 129)) acc cs :: int64) =
     sint acc + (\<Sum>(k, c) \<leftarrow> cs. int (length k) + 129)"
proof (induction cs arbitrary: acc)
  case (Cons p cs)
  obtain k c where p: "p = (k, c)" by (cases p)
  have rest: "0 \<le> (\<Sum>(k, c) \<leftarrow> cs. int (length k) + 129)"
    by (induction cs) auto
  have k: "sint (word_of_nat (length k) + 129 :: int64) = int (length k) + 129"
    using Cons.prems p rest by (subst sint_add_in_range) (auto simp: int64_simps)
  have "sint (acc + (word_of_nat (length k) + 129)) = sint acc + (int (length k) + 129)"
    using Cons.prems p rest by (subst sint_add_in_range) (auto simp: k)
  with Cons p show ?case by simp
qed simp

text \<open>The memory estimate is exact arithmetic. As long as the true sum fits 64 bits, \<^verbatim>\<open>SizeBytes\<close>
  of either map is 129 bytes per entry plus the bytes of the keys, in particular never negative.\<close>

theorem size_bytes_exact:
  assumes "(\<Sum>(k, c) \<leftarrow> kCounters m. int (length k) + 129) < 2 ^ 63"
    and "(\<Sum>(k, c) \<leftarrow> uCounters u. int (length k) + 129) < 2 ^ 63"
  shows "sint (KnownMap_SizeBytes m) =
           129 * int (length (kCounters m)) + (\<Sum>k \<leftarrow> keys_of (kCounters m). int (length k))
       \<and> sint (UnknownMap_SizeBytes u) =
           129 * int (length (uCounters u)) + (\<Sum>k \<leftarrow> keys_of (uCounters u). int (length k))"
proof -
  have per: "stringHeaderBytes + mapValuePtrBytes + mapBucketAmortized + counterStructBytes = 129"
    by code_simp
  have sum: "(\<Sum>(k, c) \<leftarrow> cs. int (length k) + 129) =
      129 * int (length cs) + (\<Sum>k \<leftarrow> keys_of cs. int (length k))" for cs :: "(string \<times> 'x) list"
    by (induction cs) auto
  show ?thesis
    using size_bytes_foldl[of 0 "kCounters m"] size_bytes_foldl[of 0 "uCounters u"] assms
    by (simp add: KnownMap_SizeBytes_def UnknownMap_SizeBytes_def size_bytes_def per sum)
qed

theorem size_bytes_exact_witness:
  "sint (KnownMap_SizeBytes (NewKnownMap 60)) = 0 \<and> sint (UnknownMap_SizeBytes idle_map) = 139"
  using size_bytes_exact[of "NewKnownMap 60" idle_map] by (simp add: NewKnownMap_def idle_map_def)

end
