(* ===== verification/Limiter.thy ===== *)
theory Limiter
  imports Interfaces Counter_Correct Metrics
begin

text \<open>
  \<^verbatim>\<open>internal/limiter/limiter.go\<close>: routing a request to a counter map and deciding it. The limiter's
  state is the two maps, the metrics and the state of its \<^verbatim>\<open>LimitLookup\<close> interface, which is an
  argument (\<open>lookup\<close>), as it is injected in Go; the lookup deadline is part of what the lookup may
  do. \<open>now\<close> is the reading of the map's clock. A panic is a result and leaves the state as it was
  when it happened.
\<close>

record limiter =
  lGlobalLimit :: int64
  lBurst :: int64
  lAbuseMultiplier :: int64
  lLookupTimeout :: duration

record 's lim_state =
  ls_known :: known_map
  ls_unknown :: unknown_map
  ls_metrics :: metrics
  ls_store :: 's

definition limiter_New :: "int64 \<Rightarrow> int64 \<Rightarrow> int64 \<Rightarrow> limiter" where
  "limiter_New globalLimit burst abuseMultiplier =
     \<lparr>lGlobalLimit = globalLimit, lBurst = burst, lAbuseMultiplier = abuseMultiplier,
      lLookupTimeout = 100 * 1000000\<rparr>"

definition with_metrics :: "(metrics \<Rightarrow> metrics) \<Rightarrow> 's lim_state \<Rightarrow> 's lim_state" where
  "with_metrics f st = st\<lparr>ls_metrics := f (ls_metrics st)\<rparr>"

text \<open>The unknown-map path \<^verbatim>\<open>decideWithKey\<close> and \<^verbatim>\<open>decideWithIP\<close> share.\<close>

definition decide_unknown ::
  "limiter \<Rightarrow> go_time \<Rightarrow> string \<Rightarrow> 's lim_state \<Rightarrow> (go_panic + bool) \<times> 's lim_state" where
  "decide_unknown l now mapKey st =
     (case UnknownMap_RecordRequest (ls_unknown st) now mapKey
             (lGlobalLimit l) (lBurst l) (lAbuseMultiplier l) of
        Inl p \<Rightarrow> (Inl p, st)
      | Inr (m, d) \<Rightarrow>
          (let st' = st\<lparr>ls_unknown := m\<rparr> in
           if dAllowed d then (Inr True, with_metrics inc_allowed st')
           else (Inr False, with_metrics inc_blocked_global st')))"

definition decide_known ::
  "limiter \<Rightarrow> go_time \<Rightarrow> string \<Rightarrow> int64 \<Rightarrow> 's lim_state \<Rightarrow> (go_panic + bool) \<times> 's lim_state" where
  "decide_known l now apiKey limit st =
     (case KnownMap_RecordRequest (ls_known st) now apiKey limit (lBurst l) of
        Inl p \<Rightarrow> (Inl p, st)
      | Inr (m, d) \<Rightarrow>
          (let st' = st\<lparr>ls_known := m\<rparr> in
           if dAllowed d then (Inr True, with_metrics inc_allowed st')
           else (Inr False, with_metrics inc_blocked_individual st')))"

definition decideWithKey ::
  "limiter \<Rightarrow> (string \<Rightarrow> 's \<Rightarrow> (int64 \<times> bool \<times> go_err option) \<times> 's) \<Rightarrow> go_time \<Rightarrow> string
     \<Rightarrow> 's lim_state \<Rightarrow> (go_panic + bool) \<times> 's lim_state" where
  "decideWithKey l lookup now apiKey st =
     (case lookup apiKey (ls_store st) of
        ((limit, found, err), s') \<Rightarrow>
          (let st1 = st\<lparr>ls_store := s'\<rparr>;
               st2 = (if err \<noteq> None then with_metrics inc_redis_errors st1 else st1);
               found' = (if err \<noteq> None then False else found)
           in if found' then decide_known l now apiKey limit st2
              else decide_unknown l now (UnknownKeyPrefix @ apiKey) st2))"

definition decideWithIP ::
  "limiter \<Rightarrow> go_time \<Rightarrow> string \<Rightarrow> 's lim_state \<Rightarrow> (go_panic + bool) \<times> 's lim_state" where
  "decideWithIP l now ip st = decide_unknown l now (UnknownIPPrefix @ ip) st"

definition Decide ::
  "limiter \<Rightarrow> (string \<Rightarrow> 's \<Rightarrow> (int64 \<times> bool \<times> go_err option) \<times> 's) \<Rightarrow> go_time
     \<Rightarrow> string \<Rightarrow> string \<Rightarrow> 's lim_state \<Rightarrow> (go_panic + bool) \<times> 's lim_state" where
  "Decide l lookup now apiKey ip st =
     (if apiKey = [] \<and> ip = [] then (Inr True, with_metrics inc_allowed st)
      else if apiKey \<noteq> [] then decideWithKey l lookup now apiKey st
      else decideWithIP l now ip st)"

end
