(* ===== verification/Redis_Memory.thy ===== *)
theory Redis_Memory
  imports Store
begin

text \<open>
  An in-memory Redis of three databases, as one concrete instance of the client interface of
  \<open>Store\<close>: the witnesses run the program against it. It is no part of the program and no theorem
  about the program is restricted to it. It can be switched off, and then fails every command.
\<close>

type_synonym mem_db = "(string \<times> (string \<times> string) list \<times> duration) list"

record mem_redis =
  m_up :: bool
  m_db1 :: mem_db
  m_db2 :: mem_db
  m_db3 :: mem_db

definition mem_get :: "nat \<Rightarrow> mem_redis \<Rightarrow> mem_db" where
  "mem_get n r = (if n = DBLimits then m_db1 r else if n = DBAbuseKey then m_db2 r else m_db3 r)"

definition mem_set :: "nat \<Rightarrow> mem_db \<Rightarrow> mem_redis \<Rightarrow> mem_redis" where
  "mem_set n db r =
     (if n = DBLimits then r\<lparr>m_db1 := db\<rparr>
      else if n = DBAbuseKey then r\<lparr>m_db2 := db\<rparr> else r\<lparr>m_db3 := db\<rparr>)"

definition mem_hash :: "mem_db \<Rightarrow> string \<Rightarrow> (string \<times> string) list" where
  "mem_hash db k = (case map_of db k of None \<Rightarrow> [] | Some (h, _) \<Rightarrow> h)"

definition mem_ttl :: "mem_db \<Rightarrow> string \<Rightarrow> duration" where
  "mem_ttl db k = (case map_of db k of None \<Rightarrow> - 2 | Some (_, t) \<Rightarrow> t)"

text \<open>A page is two keys; the cursor is the position of the next one.\<close>

definition mem_page :: "mem_db \<Rightarrow> string \<Rightarrow> uint64 \<Rightarrow> string list \<times> uint64" where
  "mem_page db pattern cur =
     (let rest = drop (unat cur) (map fst db);
          ks = filter (\<lambda>k. HasPrefix k (butlast pattern)) (take 2 rest)
      in (ks, if length rest \<le> 2 \<or> cur + 2 \<le> cur then 0 else cur + 2))"

fun mem_exec :: "redis_cmd \<Rightarrow> mem_db \<Rightarrow> mem_db" where
  "mem_exec (HSet k fs) db =
     AList.update k (fold (\<lambda>(f, v). AList.update f (FormatInt v)) fs (mem_hash db k), mem_ttl db k) db"
| "mem_exec (Expire k t) db =
     (case map_of db k of None \<Rightarrow> db | Some (h, _) \<Rightarrow> AList.update k (h, t) db)"

definition mem_down :: go_err where "mem_down = RedisErr ''connection refused''"

definition mem_client :: "nat \<Rightarrow> mem_redis redis_client" where
  "mem_client n =
     \<lparr>rc_hget = (\<lambda>k f r. if \<not> m_up r then (Inl mem_down, r)
                  else (case map_of (mem_hash (mem_get n r) k) f of
                          None \<Rightarrow> (Inl RedisNil, r) | Some v \<Rightarrow> (Inr v, r))),
      rc_exists = (\<lambda>k r. if \<not> m_up r then (Inl mem_down, r)
                  else (Inr (if map_of (mem_get n r) k = None then 0 else 1), r)),
      rc_txexec = (\<lambda>cmds r. if \<not> m_up r then (Some mem_down, r)
                  else (None, mem_set n (fold mem_exec cmds (mem_get n r)) r)),
      rc_scan = (\<lambda>cur pattern count r. if \<not> m_up r then (Inl mem_down, r)
                  else (Inr (mem_page (mem_get n r) pattern cur), r)),
      rc_hgetall = (\<lambda>k r. if \<not> m_up r then (Inl mem_down, r) else (Inr (mem_hash (mem_get n r) k), r)),
      rc_ttl = (\<lambda>k r. (if m_up r then mem_ttl (mem_get n r) k else 0, r)),
      rc_dbsize = (\<lambda>r. if \<not> m_up r then (Inl mem_down, r)
                  else (Inr (word_of_nat (length (mem_get n r))), r)),
      rc_ping = (\<lambda>r. (if m_up r then None else Some mem_down, r)),
      rc_del = (\<lambda>ks r. if \<not> m_up r then (Inl mem_down, r)
                  else (Inr (word_of_nat (length (filter (\<lambda>k. map_of (mem_get n r) k \<noteq> None) (remdups ks)))),
                        mem_set n (fold AList.delete ks (mem_get n r)) r)),
      rc_flushdb = (\<lambda>r. if \<not> m_up r then (Some mem_down, r) else (None, mem_set n [] r))\<rparr>"

definition mem_clients :: "mem_redis clients" where
  "mem_clients = fst (store_New mem_client undefined)"

definition mem_store :: "mem_redis \<Rightarrow> mem_redis store" where
  "mem_store r = snd (store_New mem_client r)"

lemma mem_clients [code, simp]:
  "mem_clients = \<lparr>limits = mem_client DBLimits, abuseK = mem_client DBAbuseKey, abuseIP = mem_client DBAbuseIP\<rparr>"
  by (simp add: mem_clients_def store_New_def)

end
