(* ===== verification/Store_Correct.thy ===== *)
theory Store_Correct
  imports Interfaces Redis_Memory
begin

text \<open>
  Correctness of the store: the health flag and the log move together through every operation
  and one log line is written per transition; \<^verbatim>\<open>LookupLimit\<close> on every branch; scans end when the
  server's cursor makes progress, and then deliver every key of every page, decoded. The last
  part is the contract the limiter relies on, as a locale the store interprets for any client.
\<close>

section \<open>Health transitions are logged once\<close>

text \<open>The health a log tells, starting from a given one: None when a transition is logged twice in a
  row.\<close>

fun log_path :: "bool \<Rightarrow> store_log list \<Rightarrow> bool option" where
  "log_path h [] = Some h"
| "log_path h (RedisUnhealthy op e # es) = (if h then log_path False es else None)"
| "log_path h (RedisRecovered op # es) = (if h then None else log_path True es)"
| "log_path h (LimitUnparseable k v e # es) = log_path h es"
| "log_path h (FieldUnparseable k f v e # es) = log_path h es"

lemma log_path_append:
  "log_path h (es @ fs) = (case log_path h es of None \<Rightarrow> None | Some h' \<Rightarrow> log_path h' fs)"
  by (induction h es rule: log_path.induct) auto

definition store_inv :: "'r store \<Rightarrow> bool" where
  "store_inv s \<longleftrightarrow> log_path True (st_log s) = Some (st_healthy s)"

lemma store_inv_on_redis: "store_inv (snd (on_redis f s)) = store_inv s"
  by (simp add: store_inv_def on_redis_def case_prod_beta)

lemma st_simps [simp]:
  "st_healthy (snd (on_redis f s)) = st_healthy s" "st_log (snd (on_redis f s)) = st_log s"
  "fst (on_redis f s) = fst (f (st_redis s))" "st_redis (snd (on_redis f s)) = snd (f (st_redis s))"
  by (simp_all add: on_redis_def case_prod_beta)

lemma on_redis_eq: "on_redis f s = (fst (f (st_redis s)), s\<lparr>st_redis := snd (f (st_redis s))\<rparr>)"
  by (simp add: on_redis_def case_prod_beta)

lemma store_inv_observe: "store_inv s \<Longrightarrow> store_inv (observe op err s)"
  by (auto simp: store_inv_def observe_def store_logs_def log_path_append split: option.splits)

lemma store_inv_parse: "store_inv s \<Longrightarrow> store_inv (snd (parseInt64 k f raw s))"
  by (auto simp: parseInt64_def store_inv_def store_logs_def log_path_append split: prod.splits option.splits)

lemma observe_healthy:
  "st_healthy (observe op err s) \<longleftrightarrow> err = None \<or> err = Some RedisNil"
  by (auto simp: observe_def store_logs_def split: option.splits)

lemma observe_redis [simp]: "st_redis (observe op err s) = st_redis s"
  by (auto simp: observe_def store_logs_def split: option.splits)

lemma store_logs_simps [simp]:
  "st_redis (store_logs e s) = st_redis s" "st_healthy (store_logs e s) = st_healthy s"
  "st_log (store_logs e s) = st_log s @ [e]"
  by (simp_all add: store_logs_def)

lemma store_inv_logs_field: "store_inv s \<Longrightarrow> store_inv (store_logs (FieldUnparseable k f v e) s)"
  by (simp add: store_inv_def store_logs_def log_path_append)

lemma store_inv_logs_limit: "store_inv s \<Longrightarrow> store_inv (store_logs (LimitUnparseable k v e) s)"
  by (simp add: store_inv_def store_logs_def log_path_append)

lemmas store_inv_intros =
  store_inv_on_redis[THEN iffD2] store_inv_observe store_inv_parse store_inv_logs_field
  store_inv_logs_limit

lemma store_inv_entry: "store_inv s \<Longrightarrow> store_inv (snd (abuse_entry_of k i vals ttl s))"
  by (simp add: abuse_entry_of_def Let_def case_prod_beta store_inv_intros)

lemma store_inv_abuse_keys: "store_inv s \<Longrightarrow> store_inv (snd (scan_abuse_keys c pfx ks out s))"
proof (induction ks arbitrary: out s)
  case (Cons k ks)
  have 1: "store_inv (snd (on_redis f s))" for f :: "'a \<Rightarrow> 'b \<times> 'a"
    using Cons.prems by (rule store_inv_on_redis[THEN iffD2])
  show ?case
    using Cons.IH Cons.prems
    by (auto simp: case_prod_beta store_inv_intros store_inv_entry split: sum.splits)
qed simp

lemma store_inv_limit_keys: "store_inv s \<Longrightarrow> store_inv (snd (scan_limit_keys c ks out s))"
proof (induction ks arbitrary: out s)
  case (Cons k ks)
  then show ?case by (auto simp: case_prod_beta store_inv_intros split: sum.splits)
qed simp

lemma store_inv_abuse_loop:
  assumes "scan_abuse_loop c pat pfx cur out s = Some y"
  shows "store_inv s \<longrightarrow> store_inv (snd y)"
proof (rule scan_abuse_loop.raw_induct
    [where P = "\<lambda>c pat pfx cur out s y. store_inv s \<longrightarrow> store_inv (snd y)", OF _ assms])
  fix loop c pat pfx cur out and s :: "'a store" and y
  assume IH: "\<And>c pat pfx cur out s y. loop c pat pfx cur out s = Some y \<Longrightarrow> store_inv s \<longrightarrow> store_inv (snd y)"
    and eq: "(case on_redis (rc_scan c cur pat 100) s of
        (Inl err, s1) \<Rightarrow> Some (ScanErr err, observe ''ScanAbuse'' (Some err) s1)
      | (Inr (keys, cursor'), s1) \<Rightarrow>
          (case scan_abuse_keys c pfx keys out s1 of
             (Inl p, s2) \<Rightarrow> Some (ScanPanic p, s2)
           | (Inr out', s2) \<Rightarrow>
               (if cursor' = 0 then Some (Scanned out', observe ''ScanAbuse'' None s2)
                else loop c pat pfx cursor' out' s2))) = Some y"
  show "store_inv s \<longrightarrow> store_inv (snd y)"
  proof
    assume inv: "store_inv s"
    obtain r s1 where r: "on_redis (rc_scan c cur pat 100) s = (r, s1)" by fastforce
    with inv have inv1: "store_inv s1" using store_inv_on_redis[of "rc_scan c cur pat 100" s] by simp
    show "store_inv (snd y)"
    proof (cases r)
      case (Inl err)
      with eq r inv1 show ?thesis by (auto intro: store_inv_observe)
    next
      case (Inr page)
      obtain o' s2 where o': "scan_abuse_keys c pfx (fst page) out s1 = (o', s2)" by fastforce
      with inv1 have inv2: "store_inv s2" using store_inv_abuse_keys[of s1 c pfx "fst page" out] by simp
      show ?thesis
        using eq r Inr o' inv2 IH[of c pat pfx "snd page" "projr o'" s2 y]
        by (cases o'; cases page) (auto intro: store_inv_observe split: if_splits)
    qed
  qed
qed

lemma store_inv_limits_loop:
  assumes "scan_limits_loop c cur out s = Some y"
  shows "store_inv s \<longrightarrow> store_inv (snd y)"
proof (rule scan_limits_loop.raw_induct
    [where P = "\<lambda>c cur out s y. store_inv s \<longrightarrow> store_inv (snd y)", OF _ assms])
  fix loop c cur out and s :: "'a store" and y
  assume IH: "\<And>c cur out s y. loop c cur out s = Some y \<Longrightarrow> store_inv s \<longrightarrow> store_inv (snd y)"
    and eq: "(case on_redis (rc_scan c cur (''rate:limit:'' @ ''*'') 100) s of
        (Inl err, s1) \<Rightarrow> Some (ScanErr err, observe ''ScanLimits'' (Some err) s1)
      | (Inr (keys, cursor'), s1) \<Rightarrow>
          (case scan_limit_keys c keys out s1 of
             (Inl p, s2) \<Rightarrow> Some (ScanPanic p, s2)
           | (Inr out', s2) \<Rightarrow>
               (if cursor' = 0 then Some (Scanned out', observe ''ScanLimits'' None s2)
                else loop c cursor' out' s2))) = Some y"
  show "store_inv s \<longrightarrow> store_inv (snd y)"
  proof
    assume inv: "store_inv s"
    obtain r s1 where r: "on_redis (rc_scan c cur (''rate:limit:'' @ ''*'') 100) s = (r, s1)" by fastforce
    with inv have inv1: "store_inv s1" using store_inv_on_redis[of "rc_scan c cur (''rate:limit:'' @ ''*'') 100" s] by simp
    show "store_inv (snd y)"
    proof (cases r)
      case (Inl err)
      with eq r inv1 show ?thesis by (auto intro: store_inv_observe)
    next
      case (Inr page)
      obtain o' s2 where o': "scan_limit_keys c (fst page) out s1 = (o', s2)" by fastforce
      with inv1 have inv2: "store_inv s2" using store_inv_limit_keys[of s1 c "fst page" out] by simp
      show ?thesis
        using eq r Inr o' inv2 IH[of c  "snd page" "projr o'" s2 y]
        by (cases o'; cases page) (auto intro: store_inv_observe split: if_splits)
    qed
  qed
qed

section \<open>Any sequence of operations\<close>

text \<open>The store's exported operations, as one datatype, and running one of them. A scan may not
  return.\<close>

datatype store_op =
    OpLookupLimit string
  | OpLimitExists string
  | OpUpsertAbuseKey string abuse_record duration
  | OpUpsertAbuseIP string abuse_record duration
  | OpScanAbuseKeys
  | OpScanAbuseIPs
  | OpScanLimits
  | OpDBSize
  | OpPing
  | OpDeleteLimits "string list"
  | OpDeleteAbuseKeys "string list"
  | OpDeleteAbuseIPs "string list"
  | OpPurgeLimits
  | OpPurgeAbuseKeys
  | OpPurgeAbuseIPs

fun scan_err :: "'a scanned \<Rightarrow> go_err option" where
  "scan_err (ScanErr e) = Some e"
| "scan_err _ = None"

fun store_op_run :: "'r clients \<Rightarrow> store_op \<Rightarrow> 'r store \<Rightarrow> 'r store option" where
  "store_op_run c (OpLookupLimit k) s = Some (snd (LookupLimit c k s))"
| "store_op_run c (OpLimitExists k) s = Some (snd (LimitExists c k s))"
| "store_op_run c (OpUpsertAbuseKey k r t) s = Some (snd (UpsertAbuseKey c k r t s))"
| "store_op_run c (OpUpsertAbuseIP k r t) s = Some (snd (UpsertAbuseIP c k r t s))"
| "store_op_run c OpScanAbuseKeys s = map_option snd (ScanAbuseKeys c s)"
| "store_op_run c OpScanAbuseIPs s = map_option snd (ScanAbuseIPs c s)"
| "store_op_run c OpScanLimits s = map_option snd (ScanLimits c s)"
| "store_op_run c OpDBSize s = Some (snd (DBSize c s))"
| "store_op_run c OpPing s = Some (snd (Ping c s))"
| "store_op_run c (OpDeleteLimits ks) s = Some (snd (DeleteLimits c ks s))"
| "store_op_run c (OpDeleteAbuseKeys ks) s = Some (snd (DeleteAbuseKeys c ks s))"
| "store_op_run c (OpDeleteAbuseIPs ks) s = Some (snd (DeleteAbuseIPs c ks s))"
| "store_op_run c OpPurgeLimits s = Some (snd (PurgeLimits c s))"
| "store_op_run c OpPurgeAbuseKeys s = Some (snd (PurgeAbuseKeys c s))"
| "store_op_run c OpPurgeAbuseIPs s = Some (snd (PurgeAbuseIPs c s))"

fun store_run :: "'r clients \<Rightarrow> store_op list \<Rightarrow> 'r store \<Rightarrow> 'r store option" where
  "store_run c [] s = Some s"
| "store_run c (op # ops) s = (case store_op_run c op s of None \<Rightarrow> None | Some s' \<Rightarrow> store_run c ops s')"

lemma LookupLimit_eq:
  "LookupLimit c k s =
     (let r = fst (rc_hget (limits c) (limit_key k) ''limit'' (st_redis s));
          s2 = observe ''LookupLimit'' (err_of r)
                 (s\<lparr>st_redis := snd (rc_hget (limits c) (limit_key k) ''limit'' (st_redis s))\<rparr>)
      in case r of
           Inl e \<Rightarrow> ((0, False, if e = RedisNil then None else Some e), s2)
         | Inr v \<Rightarrow>
             (case ParseInt v of
                (_, Some perr) \<Rightarrow>
                  ((0, False, Some perr), store_logs (LimitUnparseable (limit_key k) v perr) s2)
              | (l, None) \<Rightarrow> ((l, True, None), s2)))"
  by (simp add: LookupLimit_def on_redis_eq Let_def split: sum.split)

lemma store_inv_Lookup: "store_inv s \<Longrightarrow> store_inv (snd (LookupLimit c k s))"
  unfolding LookupLimit_def
  by (auto simp: Let_def case_prod_beta store_inv_intros split: sum.splits option.splits)

lemma store_inv_upsert: "store_inv s \<Longrightarrow> store_inv (snd (upsertAbuse c k r t s))"
  by (simp add: upsertAbuse_def Let_def case_prod_beta store_inv_intros)

lemma store_inv_del: "store_inv s \<Longrightarrow> store_inv (snd (delByPrefix c p ks s))"
  by (simp add: delByPrefix_def Let_def case_prod_beta store_inv_intros)

lemma store_inv_flush: "store_inv s \<Longrightarrow> store_inv (snd (flush_db c s))"
  by (simp add: flush_db_def Let_def case_prod_beta store_inv_intros)

lemma store_inv_DBSize: "store_inv s \<Longrightarrow> store_inv (snd (DBSize c s))"
  by (auto simp: DBSize_def Let_def case_prod_beta store_inv_intros split: sum.splits)

lemma store_inv_op:
  assumes "store_op_run c op s = Some s'" and "store_inv s"
  shows "store_inv s'"
proof (cases op)
  case OpDBSize
  with assms show ?thesis using store_inv_DBSize[of s c] by simp
next
  case OpScanAbuseKeys
  with assms show ?thesis
    using store_inv_abuse_loop by (force simp: ScanAbuseKeys_def scanAbuse_def)
next
  case OpScanAbuseIPs
  with assms show ?thesis
    using store_inv_abuse_loop by (force simp: ScanAbuseIPs_def scanAbuse_def)
next
  case OpScanLimits
  with assms show ?thesis using store_inv_limits_loop by (force simp: ScanLimits_def)
qed (use assms in \<open>auto simp: store_inv_Lookup LimitExists_def UpsertAbuseKey_def UpsertAbuseIP_def
  Ping_def DeleteLimits_def DeleteAbuseKeys_def DeleteAbuseIPs_def PurgeLimits_def PurgeAbuseKeys_def
  PurgeAbuseIPs_def store_inv_upsert store_inv_del store_inv_flush Let_def case_prod_beta store_inv_intros\<close>)

lemma store_inv_run: "store_run c ops s = Some s' \<Longrightarrow> store_inv s \<Longrightarrow> store_inv s'"
  by (induction c ops s rule: store_run.induct) (auto split: option.splits dest: store_inv_op)

lemma store_inv_New: "store_inv (snd (store_New mk r))"
  by (simp add: store_New_def store_inv_def)

text \<open>The transitions a log reports, as the health each one says: True for "recovered".\<close>

fun transition :: "store_log \<Rightarrow> bool option" where
  "transition (RedisRecovered op) = Some True"
| "transition (RedisUnhealthy op e) = Some False"
| "transition (LimitUnparseable k v e) = None"
| "transition (FieldUnparseable k f v e) = None"

definition transitions :: "store_log list \<Rightarrow> bool list" where
  "transitions log = List.map_filter transition log"

lemma log_path_alternates:
  "log_path h log = Some h' \<Longrightarrow>
     distinct_adj (h # transitions log) \<and> h' = last (h # transitions log)"
  by (induction h log rule: log_path.induct)
    (auto simp: transitions_def map_filter_simps distinct_adj_Cons split: if_splits)

text \<open>C11: Starting from a fresh store (which counts as healthy), whatever operations are called in
  whatever order and whatever Redis answers, the health transitions in the log alternate, starting
  with "unhealthy": none is ever logged twice in a row, and the health flag is what the last
  transition says. So an outage writes one line, however many operations fail.\<close>

theorem transitions_logged_once:
  assumes "store_run c ops (snd (store_New mk r)) = Some s"
  shows "distinct_adj (True # transitions (st_log s))
    \<and> IsHealthy s = last (True # transitions (st_log s))"
  using log_path_alternates[of True "st_log s" "st_healthy s"] store_inv_run[OF assms store_inv_New]
  by (simp add: store_inv_def IsHealthy_def)

section \<open>Looking up a limit\<close>

text \<open>C33: \<^verbatim>\<open>LookupLimit\<close> answers "found" exactly when Redis answered with a decimal int64, and then
  with its value; a missing key is no error; any other outcome is an error with no limit, never
  \<^verbatim>\<open>redis.Nil\<close>. Only an error from Redis itself makes the store unhealthy: a limit that does not
  parse is an error with a log line of its own, and the store stays (or becomes) healthy.\<close>

theorem LookupLimit_outcome:
  assumes "rc_hget (limits c) (''rate:limit:'' @ k) ''limit'' (st_redis s) = (ans, r')"
    and "LookupLimit c k s = ((l, found, err), s')"
  shows "(found \<longleftrightarrow> (\<exists>v. ans = Inr v \<and> ParseInt v = (l, None)))
    \<and> (err = None \<and> \<not> found \<longleftrightarrow> ans = Inl RedisNil)
    \<and> (found \<longrightarrow> err = None) \<and> (\<not> found \<longrightarrow> l = 0) \<and> err \<noteq> Some RedisNil
    \<and> (IsHealthy s' \<longleftrightarrow> (\<forall>e. ans = Inl e \<longrightarrow> e = RedisNil))
    \<and> (\<forall>v e. ans = Inr v \<and> err = Some e \<longrightarrow>
          last (st_log s') = LimitUnparseable (''rate:limit:'' @ k) v e)"
proof -
  let ?s1 = "observe ''LookupLimit'' (err_of ans) (s\<lparr>st_redis := r'\<rparr>)"
  have eq: "LookupLimit c k s =
     (case ans of
        Inl e \<Rightarrow> ((0, False, if e = RedisNil then None else Some e), ?s1)
      | Inr v \<Rightarrow>
          (case ParseInt v of
             (_, Some perr) \<Rightarrow>
               ((0, False, Some perr), store_logs (LimitUnparseable (limit_key k) v perr) ?s1)
           | (l, None) \<Rightarrow> ((l, True, None), ?s1)))"
    using assms(1) by (simp add: LookupLimit_eq limit_key_def Let_def)
  show ?thesis
  proof (cases ans)
    case (Inl e)
    with assms(2) eq show ?thesis by (auto simp: IsHealthy_def observe_healthy split: if_splits)
  next
    case (Inr v)
    obtain l' err' where parse: "ParseInt v = (l', err')" by fastforce
    show ?thesis
    proof (cases err')
      case None
      with assms(2) eq Inr parse show ?thesis by (auto simp: IsHealthy_def observe_healthy)
    next
      case (Some e)
      then have "e \<noteq> RedisNil" using parse ParseInt_err by blast
      with assms(2) eq Inr parse Some show ?thesis
        by (auto simp: IsHealthy_def observe_healthy limit_key_def)
    qed
  qed
qed

text \<open>The witnesses' database: two limits, one of which does not parse, and three abuse records.\<close>

definition stored :: "abuse_record \<Rightarrow> (string \<times> string) list" where
  "stored rc = map (\<lambda>(f, v). (f, FormatInt v)) (abuse_fields rc)"

definition example_abuse :: "int64 \<Rightarrow> abuse_record" where
  "example_abuse n = \<lparr>arFirstSeen = 1700000000, arLastSeen = 1700000060, arTotalRequests = n,
     arBurstHits = 2, arAbuseHits = - 1\<rparr>"

definition example_db :: mem_redis where
  "example_db = \<lparr>m_up = True,
     m_db1 = [(''rate:limit:a'', [(''limit'', ''12x'')], -1),
              (''rate:limit:b'', [(''limit'', ''7''), (''created_at'', ''1700000000'')], -1)],
     m_db2 = [(''rate:abuse:key:a'', stored (example_abuse 5), 60),
              (''rate:abuse:key:b'', stored (example_abuse 6), 60),
              (''rate:abuse:key:c'', stored (example_abuse 7), 30)],
     m_db3 = []\<rparr>"

theorem LookupLimit_outcome_witness:
  "last (st_log (snd (LookupLimit mem_clients ''a'' (mem_store example_db)))) =
     LimitUnparseable ''rate:limit:a'' ''12x'' ErrSyntax"
proof -
  let ?s = "mem_store example_db"
  have 1: "rc_hget (limits mem_clients) (''rate:limit:'' @ ''a'') ''limit'' (st_redis ?s) = (Inr ''12x'', example_db)"
    by code_simp
  have 2: "LookupLimit mem_clients ''a'' ?s = ((0, False, Some ErrSyntax), snd (LookupLimit mem_clients ''a'' ?s))"
    by code_simp
  show ?thesis using LookupLimit_outcome[OF 1 2] by simp
qed

theorem transitions_logged_once_witness:
  "(let s = snd (store_New mem_client (example_db\<lparr>m_up := False\<rparr>))
    in store_run mem_clients [OpPing, OpLookupLimit ''a'', OpDBSize] s \<noteq> None
     \<and> transitions (st_log (the (store_run mem_clients [OpPing, OpLookupLimit ''a'', OpDBSize] s))) = [False]
     \<and> distinct_adj [True, False])"
proof -
  let ?ops = "[OpPing, OpLookupLimit ''a'', OpDBSize]"
  let ?s = "the (store_run mem_clients ?ops (snd (store_New mem_client (example_db\<lparr>m_up := False\<rparr>))))"
  have 1: "store_run mem_clients ?ops (snd (store_New mem_client (example_db\<lparr>m_up := False\<rparr>))) = Some ?s"
    by code_simp
  have 2: "transitions (st_log ?s) = [False]" by code_simp
  show ?thesis using transitions_logged_once[OF 1] 1 2 by (simp add: Let_def)
qed

section \<open>Scans read back what upserts wrote\<close>

text \<open>A full iteration: the pages the server delivers from a cursor on until it answers cursor 0.\<close>

fun cursor_chain :: "(uint64 \<Rightarrow> string list \<times> uint64) \<Rightarrow> uint64 \<Rightarrow> string list list \<Rightarrow> bool" where
  "cursor_chain page cur [] \<longleftrightarrow> False"
| "cursor_chain page cur (ks # rest) \<longleftrightarrow>
     fst (page cur) = ks \<and> (snd (page cur) = 0 \<longleftrightarrow> rest = [])
     \<and> (rest = [] \<or> cursor_chain page (snd (page cur)) rest)"

text \<open>A server that is up and does not change while it is read.\<close>

definition serves ::
  "'r redis_client \<Rightarrow> 'r \<Rightarrow> string \<Rightarrow> (uint64 \<Rightarrow> string list \<times> uint64)
     \<Rightarrow> (string \<Rightarrow> (string \<times> string) list) \<Rightarrow> (string \<Rightarrow> duration) \<Rightarrow> bool" where
  "serves c r pattern page h ttl \<longleftrightarrow>
     (\<forall>cur. rc_scan c cur pattern 100 r = (Inr (page cur), r))
     \<and> (\<forall>k. rc_hgetall c k r = (Inr (h k), r)) \<and> (\<forall>k. rc_ttl c k r = (ttl k, r))"

lemma servesD:
  assumes "serves c (st_redis s) pattern page h ttl"
  shows "on_redis (rc_scan c cur pattern 100) s = (Inr (page cur), s)"
    and "on_redis (rc_hgetall c k) s = (Inr (h k), s)"
    and "on_redis (rc_ttl c k) s = (ttl k, s)"
  using assms by (simp_all add: serves_def on_redis_def)

text \<open>The entry a stored record is shown as.\<close>

definition entry_of :: "string \<Rightarrow> abuse_record \<Rightarrow> duration \<Rightarrow> abuse_entry" where
  "entry_of ident rc ttl =
     \<lparr>aeKey = ident, aeFirstSeen = unix_time (arFirstSeen rc), aeLastSeen = unix_time (arLastSeen rc),
      aeTotalRequests = arTotalRequests rc, aeBurstHits = arBurstHits rc,
      aeAbuseHits = arAbuseHits rc, aeTTL = ttl\<rparr>"

lemma abuse_entry_of_stored:
  assumes "\<forall>f. map_of vals f = map_of (stored rc) f"
  shows "abuse_entry_of k ident vals ttl s = (entry_of ident rc ttl, s)"
proof -
  have *: "field vals f = FormatInt v" if "map_of (abuse_fields rc) f = Some v" for f v
    using assms that by (simp add: field_def stored_def map_of_map)
  note fields = *[of "''first_seen''" "arFirstSeen rc"] *[of "''last_seen''" "arLastSeen rc"]
    *[of "''total_requests''" "arTotalRequests rc"] *[of "''burst_hits''" "arBurstHits rc"]
    *[of "''abuse_hits''" "arAbuseHits rc"]
  show ?thesis
    using fields
    by (simp add: abuse_entry_of_def entry_of_def parseInt64_def ParseInt_FormatInt abuse_fields_def)
qed

lemma scan_abuse_keys_stored:
  assumes "serves c (st_redis s) pattern page h ttl"
    and "\<forall>i\<in>set ids. \<forall>f. map_of (h (pfx @ i)) f = map_of (stored (recs i)) f"
  shows "scan_abuse_keys c pfx (map ((@) pfx) ids) out s =
    (Inr (out @ map (\<lambda>i. entry_of i (recs i) (ttl (pfx @ i))) ids), s)"
  using assms(2)
proof (induction ids arbitrary: out)
  case (Cons i ids)
  have "abuse_entry_of (pfx @ i) i (h (pfx @ i)) (ttl (pfx @ i)) s =
      (entry_of i (recs i) (ttl (pfx @ i)), s)"
    using Cons.prems by (intro abuse_entry_of_stored) simp
  with Cons show ?case using servesD[OF assms(1)] by simp
qed simp

lemma scan_abuse_loop_stored:
  assumes "serves c (st_redis s) pattern page h ttl"
    and "cursor_chain page cur (map (map ((@) pfx)) idss)"
    and "\<forall>i\<in>set (concat idss). \<forall>f. map_of (h (pfx @ i)) f = map_of (stored (recs i)) f"
  shows "scan_abuse_loop c pattern pfx cur out s =
    Some (Scanned (out @ map (\<lambda>i. entry_of i (recs i) (ttl (pfx @ i))) (concat idss)),
      observe ''ScanAbuse'' None s)"
  using assms(2,3)
proof (induction idss arbitrary: cur out)
  case (Cons ids idss)
  have keys: "scan_abuse_keys c pfx (map ((@) pfx) ids) out s =
      (Inr (out @ map (\<lambda>i. entry_of i (recs i) (ttl (pfx @ i))) ids), s)" for out
    using scan_abuse_keys_stored[OF assms(1)] Cons.prems(2) by simp
  obtain ks cur' where page: "page cur = (ks, cur')" by fastforce
  show ?case
  proof (cases "idss = []")
    case True
    with Cons.prems(1) page keys servesD(1)[OF assms(1)] show ?thesis
      by (subst scan_abuse_loop.simps) auto
  next
    case False
    with Cons.prems page have *: "cur' \<noteq> 0" "ks = map ((@) pfx) ids"
      "cursor_chain page cur' (map (map ((@) pfx)) idss)" by auto
    show ?thesis
      using * page keys servesD(1)[OF assms(1)] Cons.IH[OF *(3)] Cons.prems(2)
      by (subst scan_abuse_loop.simps) simp
  qed
qed simp

text \<open>C12: On a reachable, quiet server that holds under each prefixed key the fields an upsert wrote
  (in any order, as decimal text), a scan returns one entry per key of every page of the full
  iteration, in page order: the identifier without its prefix, the times and counts written, the
  TTL. It logs nothing but a recovery. Nothing is lost at a page boundary, and a page may be empty.\<close>

theorem abuse_scan_reads_back:
  assumes "serves c (st_redis s) pattern page h ttl"
    and "cursor_chain page 0 (map (map ((@) pfx)) idss)"
    and "\<forall>i\<in>set (concat idss). \<forall>f. map_of (h (pfx @ i)) f = map_of (stored (recs i)) f"
  shows "scanAbuse c pattern pfx s =
    Some (Scanned (map (\<lambda>i. entry_of i (recs i) (ttl (pfx @ i))) (concat idss)),
      observe ''ScanAbuse'' None s)"
  unfolding scanAbuse_def using scan_abuse_loop_stored[OF assms] by simp

theorem abuse_scan_reads_back_witness:
  "fst (the (ScanAbuseKeys mem_clients (mem_store example_db))) =
     Scanned [entry_of ''a'' (example_abuse 5) 60, entry_of ''b'' (example_abuse 6) 60,
       entry_of ''c'' (example_abuse 7) 30]"
proof -
  let ?db = "m_db2 example_db"
  let ?ids = "[[''a'', ''b''], [''c'']]"
  have 1: "serves (mem_client DBAbuseKey) (st_redis (mem_store example_db)) (abuse_key_prefix @ ''*'')
      (mem_page ?db (abuse_key_prefix @ ''*'')) (mem_hash ?db) (mem_ttl ?db)"
    by (simp add: serves_def mem_client_def mem_store_def store_New_def mem_get_def DBLimits_def
        DBAbuseKey_def example_db_def)
  have 2: "cursor_chain (mem_page ?db (abuse_key_prefix @ ''*'')) 0 (map (map ((@) abuse_key_prefix)) ?ids)"
    by code_simp
  let ?recs = "\<lambda>i. if i = ''a'' then example_abuse 5 else if i = ''b'' then example_abuse 6 else example_abuse 7"
  have 3: "\<forall>i\<in>set (concat ?ids). \<forall>f.
      map_of (mem_hash ?db (abuse_key_prefix @ i)) f = map_of (stored (?recs i)) f"
    by (simp add: example_db_def mem_hash_def abuse_key_prefix_def)
  have 4: "mem_ttl ?db (abuse_key_prefix @ ''a'') = 60" "mem_ttl ?db (abuse_key_prefix @ ''b'') = 60"
    "mem_ttl ?db (abuse_key_prefix @ ''c'') = 30"
    by code_simp+
  show ?thesis using abuse_scan_reads_back[OF 1 2 3] 4 by (simp add: ScanAbuseKeys_def)
qed

section \<open>Scans end\<close>

text \<open>What Redis documents of a full iteration, also while the keyspace changes: the cursor makes
  progress, and a page holds keys that match the pattern.\<close>

definition scan_progress :: "'r redis_client \<Rightarrow> string \<Rightarrow> string \<Rightarrow> (uint64 \<Rightarrow> nat) \<Rightarrow> bool" where
  "scan_progress c pattern pfx rank \<longleftrightarrow>
     (\<forall>cur r ks cur' r'. rc_scan c cur pattern 100 r = (Inr (ks, cur'), r') \<longrightarrow>
        (cur' = 0 \<or> rank cur' < rank cur) \<and> (\<forall>k\<in>set ks. HasPrefix k pfx))"

lemma go_slice_from_prefix: "HasPrefix k pfx \<Longrightarrow> \<exists>i. go_slice_from k (length pfx) = Inr i"
  by (auto simp: HasPrefix_iff)

lemma scan_abuse_keys_no_panic:
  assumes "\<forall>k\<in>set ks. HasPrefix k pfx"
  shows "\<exists>out' s'. scan_abuse_keys c pfx ks out s = (Inr out', s')"
  using assms
proof (induction ks arbitrary: out s)
  case (Cons k ks)
  then obtain i where "go_slice_from k (length pfx) = Inr i"
    using go_slice_from_prefix by (meson list.set_intros(1))
  with Cons show ?case by (simp split: prod.split sum.split)
qed simp

lemma scan_limit_keys_no_panic:
  assumes "\<forall>k\<in>set ks. HasPrefix k ''rate:limit:''"
  shows "\<exists>out' s'. scan_limit_keys c ks out s = (Inr out', s')"
  using assms
proof (induction ks arbitrary: out s)
  case (Cons k ks)
  then obtain i where "go_slice_from k (length ''rate:limit:'') = Inr i"
    using go_slice_from_prefix by (meson list.set_intros(1))
  with Cons show ?case by (simp split: prod.split sum.split)
qed simp

text \<open>A result that is no panic and agrees with the health flag.\<close>

definition scan_ok :: "('a scanned \<times> 'r store) option \<Rightarrow> bool" where
  "scan_ok y = (case y of
      None \<Rightarrow> False
    | Some (ScanPanic p, s) \<Rightarrow> False
    | Some (ScanErr e, s) \<Rightarrow> IsHealthy s \<longleftrightarrow> e = RedisNil
    | Some (Scanned es, s) \<Rightarrow> IsHealthy s)"

lemma scan_ok_simps [simp]:
  "scan_ok (Some (ScanErr e, observe op (Some e) s))" "scan_ok (Some (Scanned es, observe op None s))"
  by (simp_all add: scan_ok_def IsHealthy_def observe_healthy)

lemma scan_abuse_loop_ends:
  assumes "scan_progress c pattern pfx rank"
  shows "scan_ok (scan_abuse_loop c pattern pfx cur out s)"
proof (induction "rank cur" arbitrary: cur out s rule: less_induct)
  case less
  show ?case
  proof (cases "rc_scan c cur pattern 100 (st_redis s)")
    case (Pair ans r')
    show ?thesis
    proof (cases ans)
      case (Inl e)
      with Pair show ?thesis by (subst scan_abuse_loop.simps) (simp add: on_redis_def)
    next
      case (Inr page)
      obtain ks cur' where page: "page = (ks, cur')" by fastforce
      with Pair Inr assms have ks: "\<forall>k\<in>set ks. HasPrefix k pfx" "cur' = 0 \<or> rank cur' < rank cur"
        unfolding scan_progress_def by blast+
      then obtain out' s' where "scan_abuse_keys c pfx ks out (s\<lparr>st_redis := r'\<rparr>) = (Inr out', s')"
        using scan_abuse_keys_no_panic by blast
      with Pair Inr page ks less show ?thesis
        by (subst scan_abuse_loop.simps) (auto simp: on_redis_def)
    qed
  qed
qed

lemma scan_limits_loop_ends:
  assumes "scan_progress c (''rate:limit:'' @ ''*'') ''rate:limit:'' rank"
  shows "scan_ok (scan_limits_loop c cur out s)"
proof (induction "rank cur" arbitrary: cur out s rule: less_induct)
  case less
  show ?case
  proof (cases "rc_scan c cur (''rate:limit:'' @ ''*'') 100 (st_redis s)")
    case (Pair ans r')
    show ?thesis
    proof (cases ans)
      case (Inl e)
      with Pair show ?thesis by (subst scan_limits_loop.simps) (simp add: on_redis_def)
    next
      case (Inr page)
      obtain ks cur' where page: "page = (ks, cur')" by fastforce
      with Pair Inr assms have ks: "\<forall>k\<in>set ks. HasPrefix k ''rate:limit:''" "cur' = 0 \<or> rank cur' < rank cur"
        unfolding scan_progress_def by blast+
      then obtain out' s' where "scan_limit_keys c ks out (s\<lparr>st_redis := r'\<rparr>) = (Inr out', s')"
        using scan_limit_keys_no_panic by blast
      with Pair Inr page ks less show ?thesis
        by (subst scan_limits_loop.simps) (auto simp: on_redis_def)
    qed
  qed
qed

text \<open>C34: Every scan ends, whatever other commands do to the databases meanwhile and whatever fails,
  as long as the server's cursor makes progress and pages match the pattern: with the entries or
  with Redis's error, never with a slicing panic, and the health flag says which.\<close>

theorem scans_end:
  assumes "scan_progress (abuseK c) ''rate:abuse:key:*'' ''rate:abuse:key:'' rankK"
    and "scan_progress (abuseIP c) ''rate:abuse:ip:*'' ''rate:abuse:ip:'' rankI"
    and "scan_progress (limits c) ''rate:limit:*'' ''rate:limit:'' rankL"
  shows "scan_ok (ScanAbuseKeys c s) \<and> scan_ok (ScanAbuseIPs c s) \<and> scan_ok (ScanLimits c s)"
  using scan_abuse_loop_ends[of "abuseK c" _ _ rankK] scan_abuse_loop_ends[of "abuseIP c" _ _ rankI]
    scan_limits_loop_ends[of "limits c" rankL] assms
  by (simp add: ScanAbuseKeys_def ScanAbuseIPs_def ScanLimits_def scanAbuse_def abuse_key_prefix_def
      abuse_ip_prefix_def)

definition mem_rank :: "uint64 \<Rightarrow> nat" where "mem_rank cur = nat (2 ^ 64 - uint cur)"

lemma mem_rank_less: "cur < cur' \<Longrightarrow> mem_rank cur' < mem_rank cur"
  using uint_lt2p[of cur'] by (simp add: mem_rank_def word_less_def)

lemma mem_scan_progress:
  assumes "butlast pattern = pfx"
  shows "scan_progress (mem_client n) pattern pfx mem_rank"
proof -
  have page: "(cur' = 0 \<or> cur < cur') \<and> (\<forall>k\<in>set ks. HasPrefix k pfx)"
    if "mem_page db pattern cur = (ks, cur')" for db cur ks cur'
    using that assms by (auto simp: mem_page_def Let_def split: if_splits)
  show ?thesis
    unfolding scan_progress_def
  proof (intro allI impI)
    fix cur r ks cur' r'
    assume "rc_scan (mem_client n) cur pattern 100 r = (Inr (ks, cur'), r')"
    then have "mem_page (mem_get n r) pattern cur = (ks, cur')"
      by (auto simp: mem_client_def split: if_splits)
    with page mem_rank_less
    show "(cur' = 0 \<or> mem_rank cur' < mem_rank cur) \<and> (\<forall>k\<in>set ks. HasPrefix k pfx)" by blast
  qed
qed

theorem scans_end_witness:
  "scan_ok (ScanAbuseKeys mem_clients (mem_store example_db))
   \<and> scan_ok (ScanLimits mem_clients (mem_store (example_db\<lparr>m_up := False\<rparr>)))"
proof -
  have 1: "scan_progress (abuseK mem_clients) ''rate:abuse:key:*'' ''rate:abuse:key:'' mem_rank"
    "scan_progress (abuseIP mem_clients) ''rate:abuse:ip:*'' ''rate:abuse:ip:'' mem_rank"
    "scan_progress (limits mem_clients) ''rate:limit:*'' ''rate:limit:'' mem_rank"
    by (simp_all add: mem_scan_progress)
  show ?thesis using scans_end[OF 1] by blast
qed

section \<open>What the limiter and the cleanup rely on\<close>

interpretation ll: limit_lookup "LookupLimit c" for c :: "'r clients"
  by unfold_locales
    (auto simp: LookupLimit_eq Let_def split: sum.splits prod.splits option.splits if_splits
      dest: ParseInt_err)

interpretation cs: cleanup_store "LimitExists c" "UpsertAbuseKey c" "UpsertAbuseIP c" "DBSize c" IsHealthy
  for c :: "'r clients"
  by unfold_locales
    (auto simp: LimitExists_def UpsertAbuseKey_def UpsertAbuseIP_def upsertAbuse_def DBSize_def
      Let_def case_prod_beta IsHealthy_def observe_healthy split: sum.splits)

end
