(* ===== verification/Limiter_Correct.thy ===== *)
theory Limiter_Correct
  imports Limiter Store_Correct
begin

text \<open>
  Correctness of the limiter. Its abstract specification has no maps, prefixes or metrics: a request
  goes to one route (a known key, a key under the global limit, an address, or nowhere) with one
  limit, and each route has one fixed-window counter. The limiter refines it step by step, so the
  admission bound of \<open>Fixed_Window\<close> holds end to end for any mix of clients, and the limiter is a
  \<open>decider\<close> for its HTTP handler.
\<close>

section \<open>Specification\<close>

datatype route = KnownKey string | GlobalKey string | Address string

text \<open>Where a request goes, and with which limit, given what the lookup said.\<close>

definition route_of :: "int64 \<Rightarrow> int64 \<times> bool \<times> go_err option \<Rightarrow> string \<Rightarrow> string \<Rightarrow> (route \<times> int64) option" where
  "route_of glob answer apiKey ip =
     (if apiKey \<noteq> [] then
        (case answer of
           (limit, True, None) \<Rightarrow> Some (KnownKey apiKey, limit)
         | _ \<Rightarrow> Some (GlobalKey apiKey, glob))
      else if ip \<noteq> [] then Some (Address ip, glob)
      else None)"

fun route_counter :: "'s lim_state \<Rightarrow> route \<Rightarrow> window_state option" where
  "route_counter st (KnownKey k) = known_get (ls_known st) k"
| "route_counter st (GlobalKey k) = unknown_get (ls_unknown st) (''key:'' @ k)"
| "route_counter st (Address a) = unknown_get (ls_unknown st) (''ip:'' @ a)"

fun penalty_threshold :: "limiter \<Rightarrow> route \<Rightarrow> int64 \<Rightarrow> int64" where
  "penalty_threshold l (KnownKey k) limit = limit"
| "penalty_threshold l _ limit = limit * lAbuseMultiplier l"

definition lim_windows :: "int64 \<Rightarrow> 's lim_state \<Rightarrow> bool" where
  "lim_windows ws st \<longleftrightarrow> kWindowS (ls_known st) = ws \<and> uWindowS (ls_unknown st) = ws \<and> ws \<noteq> 0"

section \<open>Refinement\<close>

lemma with_metrics_simps [simp]:
  "ls_known (with_metrics f st) = ls_known st" "ls_unknown (with_metrics f st) = ls_unknown st"
  "ls_store (with_metrics f st) = ls_store st" "ls_metrics (with_metrics f st) = f (ls_metrics st)"
  "route_counter (with_metrics f st) = route_counter st"
  "lim_windows ws (with_metrics f st) = lim_windows ws st"
  "route_counter (st\<lparr>ls_store := s\<rparr>) = route_counter st"
  "lim_windows ws (st\<lparr>ls_store := s\<rparr>) = lim_windows ws st"
proof -
  show r: "route_counter (with_metrics f st) = route_counter st"
    "route_counter (st\<lparr>ls_store := s\<rparr>) = route_counter st" for st :: "'a lim_state"
    by (rule ext, rename_tac r, case_tac r; simp add: with_metrics_def)+
qed (simp_all add: with_metrics_def lim_windows_def)

lemma prefixes_apart: "''key:'' @ k \<noteq> ''ip:'' @ a" "''ip:'' @ a \<noteq> ''key:'' @ k"
  by simp_all

lemma decide_known_refines:
  fixes st :: "'s lim_state" and now :: go_time and l :: limiter and k :: string and limit :: int64
  assumes "lim_windows ws st"
  defines "q \<equiv> window_req limit limit (lBurst l) ws (route_counter st (KnownKey k)) now"
  shows "\<exists>st'. decide_known l now k limit st = (Inr (dAllowed (snd q)), st')
    \<and> route_counter st' = (route_counter st)(KnownKey k \<mapsto> fst q) \<and> lim_windows ws st'
    \<and> ls_store st' = ls_store st
    \<and> ls_metrics st' = (if dAllowed (snd q) then inc_allowed else inc_blocked_individual) (ls_metrics st)"
proof -
  have ws: "kWindowS (ls_known st) = ws" "kWindowS (ls_known st) \<noteq> 0"
    using assms(1) by (auto simp: lim_windows_def)
  obtain m' where m': "KnownMap_RecordRequest (ls_known st) now k limit (lBurst l) = Inr (m', snd q)"
    "kWindowS m' = ws" "known_get m' = (known_get (ls_known st))(k \<mapsto> fst q)"
    using km.record_steps[OF ws(2), of now k limit "lBurst l"] ws(1) by (auto simp: q_def)
  have "route_counter (st\<lparr>ls_known := m'\<rparr>) = (route_counter st)(KnownKey k \<mapsto> fst q)"
  proof
    fix r show "route_counter (st\<lparr>ls_known := m'\<rparr>) r = ((route_counter st)(KnownKey k \<mapsto> fst q)) r"
      using m'(3) by (cases r) auto
  qed
  with m' assms(1) show ?thesis
    by (auto simp: decide_known_def Let_def lim_windows_def)
qed

lemma decide_unknown_refines:
  fixes st :: "'s lim_state" and now :: go_time and l :: limiter and k :: string and r :: route
  assumes "lim_windows ws st" and "r = GlobalKey k \<and> mk = ''key:'' @ k \<or> r = Address k \<and> mk = ''ip:'' @ k"
  defines "q \<equiv> window_req (lGlobalLimit l * lAbuseMultiplier l) (lGlobalLimit l) (lBurst l) ws (route_counter st r) now"
  shows "\<exists>st'. decide_unknown l now mk st = (Inr (dAllowed (snd q)), st')
    \<and> route_counter st' = (route_counter st)(r \<mapsto> fst q) \<and> lim_windows ws st'
    \<and> ls_store st' = ls_store st
    \<and> ls_metrics st' = (if dAllowed (snd q) then inc_allowed else inc_blocked_global) (ls_metrics st)"
proof -
  have ws: "uWindowS (ls_unknown st) = ws" "uWindowS (ls_unknown st) \<noteq> 0"
    using assms(1) by (auto simp: lim_windows_def)
  have rc: "route_counter st r = unknown_get (ls_unknown st) mk" using assms(2) by auto
  obtain m' where m': "UnknownMap_RecordRequest (ls_unknown st) now mk (lGlobalLimit l) (lBurst l)
      (lAbuseMultiplier l) = Inr (m', snd q)"
    "uWindowS m' = ws" "unknown_get m' = (unknown_get (ls_unknown st))(mk \<mapsto> fst q)"
    using um.record_steps[OF ws(2), of now mk "lGlobalLimit l" "lBurst l" "lAbuseMultiplier l"] ws(1)
    by (auto simp: q_def rc)
  have "route_counter (st\<lparr>ls_unknown := m'\<rparr>) = (route_counter st)(r \<mapsto> fst q)"
  proof
    fix r' show "route_counter (st\<lparr>ls_unknown := m'\<rparr>) r' = ((route_counter st)(r \<mapsto> fst q)) r'"
      using m'(3) assms(2) by (cases r') auto
  qed
  with m' assms(1) show ?thesis
    by (auto simp: decide_unknown_def Let_def lim_windows_def)
qed

text \<open>What one decision does to the metrics: one of three results, and a Redis error apart.\<close>

definition count_result :: "route option \<Rightarrow> bool \<Rightarrow> metrics \<Rightarrow> metrics" where
  "count_result r allowed =
     (if allowed then inc_allowed
      else case r of Some (KnownKey k) \<Rightarrow> inc_blocked_individual | _ \<Rightarrow> inc_blocked_global)"

text \<open>The lookup is asked once for a request with a key and not at all for one without.\<close>

definition asked :: "(string \<Rightarrow> 's \<Rightarrow> (int64 \<times> bool \<times> go_err option) \<times> 's) \<Rightarrow> string \<Rightarrow> 's
    \<Rightarrow> (int64 \<times> bool \<times> go_err option) \<times> 's" where
  "asked lookup apiKey s = (if apiKey = [] then ((0, False, None), s) else lookup apiKey s)"

definition decide_spec ::
  "limiter \<Rightarrow> int64 \<Rightarrow> go_time \<Rightarrow> (route \<times> int64) option \<Rightarrow> (route \<Rightarrow> window_state option)
     \<Rightarrow> bool \<times> (route \<Rightarrow> window_state option)" where
  "decide_spec l ws now dest cs =
     (case dest of
        None \<Rightarrow> (True, cs)
      | Some (r, limit) \<Rightarrow>
          (let (w, d) = window_req (penalty_threshold l r limit) limit (lBurst l) ws (cs r) now
           in (dAllowed d, cs(r \<mapsto> w))))"

lemma Decide_refines:
  fixes st :: "'s lim_state" and lookup :: "string \<Rightarrow> 's \<Rightarrow> (int64 \<times> bool \<times> go_err option) \<times> 's"
    and l :: limiter and apiKey ip :: string
  assumes "lim_windows ws st"
  defines "a \<equiv> asked lookup apiKey (ls_store st)"
  defines "dest \<equiv> route_of (lGlobalLimit l) (fst a) apiKey ip"
  shows "\<exists>st'. Decide l lookup now apiKey ip st = (Inr (fst (decide_spec l ws now dest (route_counter st))), st')
    \<and> route_counter st' = snd (decide_spec l ws now dest (route_counter st))
    \<and> lim_windows ws st' \<and> ls_store st' = snd a
    \<and> ls_metrics st' =
        count_result (map_option fst dest) (fst (decide_spec l ws now dest (route_counter st)))
          ((if snd (snd (fst a)) = None then id else inc_redis_errors) (ls_metrics st))"
proof (cases "apiKey = []")
  case True
  show ?thesis
  proof (cases "ip = []")
    case True
    with \<open>apiKey = []\<close> assms(1) show ?thesis
      by (simp add: Decide_def a_def dest_def asked_def route_of_def decide_spec_def count_result_def)
  next
    case False
    with \<open>apiKey = []\<close> decide_unknown_refines[OF assms(1), where r = "Address ip" and k = ip and mk = "''ip:'' @ ip"
        and l = l and now = now]
    show ?thesis
      by (auto simp: Decide_def a_def dest_def asked_def route_of_def decide_spec_def count_result_def
          decideWithIP_def UnknownIPPrefix_def case_prod_beta Let_def)
  qed
next
  case False
  obtain limit found err s' where a: "a = ((limit, found, err), s')" by (cases a) auto
  let ?st = "(if err \<noteq> None then with_metrics inc_redis_errors (st\<lparr>ls_store := s'\<rparr>) else st\<lparr>ls_store := s'\<rparr>)"
  have lookup: "lookup apiKey (ls_store st) = ((limit, found, err), s')"
    using a False by (simp add: a_def asked_def)
  have st: "lim_windows ws ?st" "route_counter ?st = route_counter st" "ls_store ?st = s'"
    "ls_metrics ?st = (if err = None then id else inc_redis_errors) (ls_metrics st)"
    using assms(1) by auto
  show ?thesis
  proof (cases "found \<and> err = None")
    case True
    then have d: "dest = Some (KnownKey apiKey, limit)"
      using False a by (simp add: dest_def route_of_def)
    have "Decide l lookup now apiKey ip st = decide_known l now apiKey limit ?st"
      using True False lookup by (simp add: Decide_def decideWithKey_def)
    with decide_known_refines[OF st(1), where limit = limit and l = l and k = apiKey and now = now] st d a True show ?thesis
      by (auto simp: decide_spec_def count_result_def case_prod_beta Let_def)
  next
    case no: False
    then have d: "dest = Some (GlobalKey apiKey, lGlobalLimit l)"
      using False a by (cases found; cases err) (simp_all add: dest_def route_of_def)
    have "Decide l lookup now apiKey ip st = decide_unknown l now (''key:'' @ apiKey) ?st"
      using no False lookup by (auto simp: Decide_def decideWithKey_def UnknownKeyPrefix_def Let_def)
    with decide_unknown_refines[OF st(1), where r = "GlobalKey apiKey" and k = apiKey and mk = "''key:'' @ apiKey"
        and l = l and now = now] st d a
    show ?thesis
      by (auto simp: decide_spec_def count_result_def case_prod_beta Let_def)
  qed
qed

section \<open>Runs\<close>

text \<open>A request as the limiter sees it: the clock reading of its map, its key and its address.\<close>

type_synonym request = "go_time \<times> string \<times> string"

fun decide_all ::
  "limiter \<Rightarrow> (string \<Rightarrow> 's \<Rightarrow> (int64 \<times> bool \<times> go_err option) \<times> 's) \<Rightarrow> request list \<Rightarrow> 's lim_state
     \<Rightarrow> (go_panic + bool list) \<times> 's lim_state" where
  "decide_all l lookup [] st = (Inr [], st)"
| "decide_all l lookup ((t, k, ip) # qs) st =
     (case Decide l lookup t k ip st of
        (Inl p, st1) \<Rightarrow> (Inl p, st1)
      | (Inr b, st1) \<Rightarrow>
          (case decide_all l lookup qs st1 of
             (Inl p, st2) \<Rightarrow> (Inl p, st2)
           | (Inr bs, st2) \<Rightarrow> (Inr (b # bs), st2)))"

text \<open>The specification's run: the destinations first, then the counters.\<close>

fun destinations ::
  "int64 \<Rightarrow> (string \<Rightarrow> 's \<Rightarrow> (int64 \<times> bool \<times> go_err option) \<times> 's) \<Rightarrow> request list \<Rightarrow> 's
     \<Rightarrow> (go_time \<times> (route \<times> int64) option) list" where
  "destinations glob lookup [] s = []"
| "destinations glob lookup ((t, k, ip) # qs) s =
     (case asked lookup k s of (answer, s') \<Rightarrow>
        (t, route_of glob answer k ip) # destinations glob lookup qs s')"

fun spec_all ::
  "limiter \<Rightarrow> int64 \<Rightarrow> (go_time \<times> (route \<times> int64) option) list \<Rightarrow> (route \<Rightarrow> window_state option)
     \<Rightarrow> bool list \<times> (route \<Rightarrow> window_state option)" where
  "spec_all l ws [] cs = ([], cs)"
| "spec_all l ws ((t, dest) # ds) cs =
     (case decide_spec l ws t dest cs of (b, cs1) \<Rightarrow>
        (case spec_all l ws ds cs1 of (bs, cs2) \<Rightarrow> (b # bs, cs2)))"

lemma requests_decided_count [simp]: "requests_decided (count_result r b m) = Suc (requests_decided m)"
  by (auto simp: count_result_def split: option.split route.split)

lemma requests_decided_id_if [simp]:
  "requests_decided ((if x then id else inc_redis_errors) m) = requests_decided m"
  by simp

lemma decide_all_refines:
  assumes "lim_windows ws st"
  shows "\<exists>bs st'. decide_all l lookup qs st = (Inr bs, st') \<and> length bs = length qs
    \<and> spec_all l ws (destinations (lGlobalLimit l) lookup qs (ls_store st)) (route_counter st)
        = (bs, route_counter st')
    \<and> lim_windows ws st'
    \<and> requests_decided (ls_metrics st') = requests_decided (ls_metrics st) + length qs"
  using assms
proof (induction qs arbitrary: st)
  case (Cons q qs)
  obtain t k ip where q: "q = (t, k, ip)" by (cases q) auto
  let ?a = "asked lookup k (ls_store st)"
  let ?spec = "decide_spec l ws t (route_of (lGlobalLimit l) (fst ?a) k ip) (route_counter st)"
  obtain st1 where st1: "Decide l lookup t k ip st = (Inr (fst ?spec), st1)"
    "route_counter st1 = snd ?spec" "lim_windows ws st1" "ls_store st1 = snd ?a"
    "requests_decided (ls_metrics st1) = Suc (requests_decided (ls_metrics st))"
    using Decide_refines[OF Cons.prems, where l = l and lookup = lookup and now = t and apiKey = k and ip = ip]
    by force
  obtain bs st2 where st2: "decide_all l lookup qs st1 = (Inr bs, st2)" "length bs = length qs"
    "spec_all l ws (destinations (lGlobalLimit l) lookup qs (ls_store st1)) (route_counter st1) = (bs, route_counter st2)"
    "lim_windows ws st2"
    "requests_decided (ls_metrics st2) = requests_decided (ls_metrics st1) + length qs"
    using Cons.IH[OF st1(3)] by blast
  show ?case
    using q st1 st2 by (simp add: case_prod_beta)
qed simp

text \<open>One route of a specification run, when all its requests come with one limit: the run of its
  counter alone.\<close>

definition times_to :: "route \<Rightarrow> (go_time \<times> (route \<times> int64) option) list \<Rightarrow> go_time list" where
  "times_to r ds = map fst (filter (\<lambda>d. map_option fst (snd d) = Some r) ds)"

definition answers_to ::
  "route \<Rightarrow> (go_time \<times> (route \<times> int64) option) list \<Rightarrow> bool list \<Rightarrow> bool list" where
  "answers_to r ds bs = map snd (filter (\<lambda>(d, b). map_option fst (snd d) = Some r) (zip ds bs))"

lemma spec_all_route:
  assumes "\<forall>d\<in>set ds. \<forall>l'. snd d = Some (r, l') \<longrightarrow> l' = lim"
  shows "(let run = window_run (penalty_threshold l r lim) lim (lBurst l) ws (cs r) (times_to r ds)
    in answers_to r ds (fst (spec_all l ws ds cs)) = map dAllowed (snd run)
     \<and> snd (spec_all l ws ds cs) r = fst run)"
  using assms
proof (induction ds arbitrary: cs)
  case (Cons d ds)
  obtain t dest where d: "d = (t, dest)" by (cases d)
  let ?sp = "decide_spec l ws t dest cs"
  have IH: "answers_to r ds (fst (spec_all l ws ds (snd ?sp))) =
        map dAllowed (snd (window_run (penalty_threshold l r lim) lim (lBurst l) ws (snd ?sp r) (times_to r ds)))
      \<and> snd (spec_all l ws ds (snd ?sp)) r =
        fst (window_run (penalty_threshold l r lim) lim (lBurst l) ws (snd ?sp r) (times_to r ds))"
    using Cons.IH[of "snd ?sp"] Cons.prems by (simp add: Let_def)
  show ?case
  proof (cases "map_option fst dest = Some r")
    case True
    then obtain l' where "dest = Some (r, l')" by auto
    with Cons.prems d have dest: "dest = Some (r, lim)" by auto
    with d IH show ?thesis
      by (simp add: answers_to_def times_to_def decide_spec_def Let_def case_prod_beta)
  next
    case False
    then have "snd ?sp r = cs r" by (auto simp: decide_spec_def Let_def case_prod_beta split: option.splits)
    with False d IH show ?thesis
      by (simp add: answers_to_def times_to_def Let_def case_prod_beta)
  qed
qed (simp add: answers_to_def times_to_def)

section \<open>Admission end to end\<close>

text \<open>A client is a test on key and address. How many of its requests fall into a slot, and how many
  of those were allowed:\<close>

definition client_times :: "(string \<Rightarrow> string \<Rightarrow> bool) \<Rightarrow> request list \<Rightarrow> go_time list" where
  "client_times P qs = map fst (filter (\<lambda>(t, k, ip). P k ip) qs)"

definition client_allowed ::
  "(string \<Rightarrow> string \<Rightarrow> bool) \<Rightarrow> int64 \<Rightarrow> int64 \<Rightarrow> request list \<Rightarrow> bool list \<Rightarrow> nat" where
  "client_allowed P ws s qs bs =
     length (filter (\<lambda>((t, k, ip), b). P k ip \<and> slot_at ws t = s \<and> b) (zip qs bs))"

text \<open>The client's requests, and no others, go to one route with one limit, in every state of the
  lookup that satisfies an invariant of it (that the server does not change, say).\<close>

definition routed ::
  "int64 \<Rightarrow> (string \<Rightarrow> 's \<Rightarrow> (int64 \<times> bool \<times> go_err option) \<times> 's) \<Rightarrow> (string \<Rightarrow> string \<Rightarrow> bool)
     \<Rightarrow> ('s \<Rightarrow> bool) \<Rightarrow> route \<Rightarrow> int64 \<Rightarrow> bool" where
  "routed glob lookup P I r lim \<longleftrightarrow>
     (\<forall>k s. I s \<longrightarrow> I (snd (lookup k s))) \<and>
     (\<forall>k ip s. I s \<longrightarrow> (case route_of glob (fst (asked lookup k s)) k ip of
         Some (r', lim') \<Rightarrow> (r' = r \<longleftrightarrow> P k ip) \<and> (r' = r \<longrightarrow> lim' = lim)
       | None \<Rightarrow> \<not> P k ip))"

lemma routedD:
  assumes "routed glob lookup P I r lim" and "I s"
  shows "(map_option fst (route_of glob (fst (asked lookup k s)) k ip) = Some r) = P k ip"
    and "route_of glob (fst (asked lookup k s)) k ip = Some (r, lim') \<Longrightarrow> lim' = lim"
    and "I (snd (asked lookup k s))"
proof -
  have h: "case route_of glob (fst (asked lookup k s)) k ip of
         Some (r', lim') \<Rightarrow> (r' = r \<longleftrightarrow> P k ip) \<and> (r' = r \<longrightarrow> lim' = lim)
       | None \<Rightarrow> \<not> P k ip"
    using assms unfolding routed_def by blast
  show "(map_option fst (route_of glob (fst (asked lookup k s)) k ip) = Some r) = P k ip"
    using h by (auto split: option.splits)
  show "route_of glob (fst (asked lookup k s)) k ip = Some (r, lim') \<Longrightarrow> lim' = lim"
    using h by auto
  show "I (snd (asked lookup k s))" using assms by (simp add: routed_def asked_def)
qed

lemma destinations_routed:
  assumes "routed glob lookup P I r lim" and "I s"
  shows "times_to r (destinations glob lookup qs s) = client_times P qs"
    and "length bs = length qs \<Longrightarrow>
      zip (client_times P qs) (answers_to r (destinations glob lookup qs s) bs) =
        map (\<lambda>((t, k, ip), b). (t, b)) (filter (\<lambda>((t, k, ip), b). P k ip) (zip qs bs))"
    and "\<forall>d\<in>set (destinations glob lookup qs s). \<forall>l'. snd d = Some (r, l') \<longrightarrow> l' = lim"
proof -
  show "times_to r (destinations glob lookup qs s) = client_times P qs"
    using assms(2)
  proof (induction qs arbitrary: s)
    case (Cons q qs)
    obtain t k ip where q: "q = (t, k, ip)" by (cases q) auto
    show ?case
      using Cons.IH[of "snd (asked lookup k s)"] q routedD(1)[OF assms(1) Cons.prems, of k ip]
        routedD(3)[OF assms(1) Cons.prems, of k]
      by (simp add: times_to_def client_times_def case_prod_beta del: map_option_eq_Some)
  qed (simp add: times_to_def client_times_def)
  show "\<forall>d\<in>set (destinations glob lookup qs s). \<forall>l'. snd d = Some (r, l') \<longrightarrow> l' = lim"
    using assms(2)
  proof (induction qs arbitrary: s)
    case (Cons q qs)
    obtain t k ip where q: "q = (t, k, ip)" by (cases q) auto
    show ?case
      using Cons.IH[of "snd (asked lookup k s)"] q routedD(2)[OF assms(1) Cons.prems, of k ip]
        routedD(3)[OF assms(1) Cons.prems, of k]
      by (auto simp: case_prod_beta)
  qed simp
  show "length bs = length qs \<Longrightarrow>
      zip (client_times P qs) (answers_to r (destinations glob lookup qs s) bs) =
        map (\<lambda>((t, k, ip), b). (t, b)) (filter (\<lambda>((t, k, ip), b). P k ip) (zip qs bs))"
    using assms(2)
  proof (induction qs arbitrary: s bs)
    case (Cons q qs)
    obtain t k ip where q: "q = (t, k, ip)" by (cases q) auto
    obtain b bs' where bs: "bs = b # bs'" "length bs' = length qs" using Cons.prems by (cases bs) auto
    show ?case
      using Cons.IH[OF bs(2), of "snd (asked lookup k s)"] q bs routedD(1)[OF assms(1) Cons.prems(2), of k ip]
        routedD(3)[OF assms(1) Cons.prems(2), of k]
      by (auto simp: client_times_def answers_to_def case_prod_beta)
  qed (simp add: client_times_def answers_to_def)
qed

lemma allowed_in_slot_answers:
  "map dAllowed ds = bs \<Longrightarrow> length ts = length ds \<Longrightarrow>
     allowed_in_slot ws s ts ds = length (filter (\<lambda>(t, b). slot_at ws t = s \<and> b) (zip ts bs))"
proof (induction ts arbitrary: ds bs)
  case (Cons t ts)
  then show ?case by (cases ds) (auto simp: allowed_in_slot_def)
qed (simp add: allowed_in_slot_def)

lemma client_admission:
  assumes wf: "lim_windows ws st" and new: "route_counter st r = None"
    and routed: "routed (lGlobalLimit l) lookup P I r lim" and I: "I (ls_store st)"
    and rng: "in_int64 (sint lim + sint (lBurst l))"
    and len: "int (length (client_times P qs)) < 2 ^ 63"
    and srt: "sorted (map (\<lambda>t. sint (slot_at ws t)) (client_times P qs))"
  shows "\<exists>bs st'. decide_all l lookup qs st = (Inr bs, st') \<and> length bs = length qs
    \<and> client_allowed P ws s qs bs =
        min (count_list (map (slot_at ws) (client_times P qs)) s) (nat (sint lim + sint (lBurst l)))"
proof -
  let ?dests = "destinations (lGlobalLimit l) lookup qs (ls_store st)"
  obtain bs st' where run: "decide_all l lookup qs st = (Inr bs, st')" "length bs = length qs"
    "spec_all l ws ?dests (route_counter st) = (bs, route_counter st')"
    using decide_all_refines[OF wf] by blast
  let ?w = "window_run (penalty_threshold l r lim) lim (lBurst l) ws None (client_times P qs)"
  have ans: "answers_to r ?dests bs = map dAllowed (snd ?w)"
    using spec_all_route[OF destinations_routed(3)[OF routed I], of l ws "route_counter st" qs]
      run(3) new destinations_routed(1)[OF routed I] by (simp add: Let_def)
  have "client_allowed P ws s qs bs =
      length (filter (\<lambda>(t, b). slot_at ws t = s \<and> b) (zip (client_times P qs) (answers_to r ?dests bs)))"
    unfolding destinations_routed(2)[OF routed I run(2)] filter_map
    by (simp add: client_allowed_def comp_def case_prod_beta' conj_commute conj_left_commute)
  also have "\<dots> = allowed_in_slot ws s (client_times P qs) (snd ?w)"
    by (simp add: ans allowed_in_slot_answers)
  also have "\<dots> = min (count_list (map (slot_at ws) (client_times P qs)) s) (nat (sint lim + sint (lBurst l)))"
    by (rule window_run_slot_sorted[OF rng len srt])
  finally show ?thesis using run by blast
qed

text \<open>C5: The limiter is its specification. For any mix of requests and any behaviour of the lookup,
  \<^verbatim>\<open>Decide\<close> never panics when the window is not zero; the answers and the counters are those of
  the specification run, in which each request takes one fixed-window step at the counter of its
  route and no other counter moves; and each request is counted in exactly one of the three result
  metrics.\<close>

theorem limiter_refines_spec:
  assumes "lim_windows ws st"
  shows "\<exists>bs st'. decide_all l lookup qs st = (Inr bs, st')
    \<and> spec_all l ws (destinations (lGlobalLimit l) lookup qs (ls_store st)) (route_counter st)
        = (bs, route_counter st')
    \<and> requests_decided (ls_metrics st') = requests_decided (ls_metrics st) + length qs"
  using decide_all_refines[OF assms, of l lookup qs] by blast

text \<open>C1: A key with an individual limit is limited by it, end to end. While the lookup finds the
  key with its limit (in every state of an invariant of the lookup), each slot allows exactly the first \<open>limit + burst\<close> requests of the key,
  whatever other keys and addresses send in between and whatever the lookup says of them.\<close>

theorem known_key_limited:
  assumes "lim_windows ws st" and "KnownMap_Get (ls_known st) k = None" and "k \<noteq> []"
    and "I (ls_store st)" and "\<forall>k' s. I s \<longrightarrow> I (snd (lookup k' s))"
    and "\<forall>s. I s \<longrightarrow> fst (lookup k s) = (lim, True, None)"
    and "in_int64 (sint lim + sint (lBurst l))"
    and "int (length (client_times (\<lambda>k' ip. k' = k) qs)) < 2 ^ 63"
    and "sorted (map (\<lambda>t. sint (slot_at ws t)) (client_times (\<lambda>k' ip. k' = k) qs))"
  shows "\<exists>bs st'. decide_all l lookup qs st = (Inr bs, st') \<and> length bs = length qs
    \<and> client_allowed (\<lambda>k' ip. k' = k) ws s qs bs =
        min (count_list (map (slot_at ws) (client_times (\<lambda>k' ip. k' = k) qs)) s)
          (nat (sint lim + sint (lBurst l)))"
proof -
  have "routed (lGlobalLimit l) lookup (\<lambda>k' ip. k' = k) I (KnownKey k) lim"
    using assms(3,5,6) by (auto simp: routed_def route_of_def asked_def split: prod.split bool.split option.split)
  moreover have "route_counter st (KnownKey k) = None" using assms(2) by simp
  ultimately show ?thesis using client_admission assms by blast
qed

text \<open>C2: A key without an individual limit is limited by the global one, and so is every key while
  Redis is down: fail-open is not unlimited. If no lookup of the key is both found and free of
  error, each slot allows exactly the first \<open>globalLimit + burst\<close> of its requests; misses, errors
  and unparseable limits may alternate.\<close>

theorem unknown_key_limited:
  assumes "lim_windows ws st" and "UnknownMap_Get (ls_unknown st) (''key:'' @ k) = None" and "k \<noteq> []"
    and "I (ls_store st)" and "\<forall>k' s. I s \<longrightarrow> I (snd (lookup k' s))"
    and "\<forall>s lim. I s \<longrightarrow> fst (lookup k s) \<noteq> (lim, True, None)"
    and "in_int64 (sint (lGlobalLimit l) + sint (lBurst l))"
    and "int (length (client_times (\<lambda>k' ip. k' = k) qs)) < 2 ^ 63"
    and "sorted (map (\<lambda>t. sint (slot_at ws t)) (client_times (\<lambda>k' ip. k' = k) qs))"
  shows "\<exists>bs st'. decide_all l lookup qs st = (Inr bs, st') \<and> length bs = length qs
    \<and> client_allowed (\<lambda>k' ip. k' = k) ws s qs bs =
        min (count_list (map (slot_at ws) (client_times (\<lambda>k' ip. k' = k) qs)) s)
          (nat (sint (lGlobalLimit l) + sint (lBurst l)))"
proof -
  have "routed (lGlobalLimit l) lookup (\<lambda>k' ip. k' = k) I (GlobalKey k) (lGlobalLimit l)"
    using assms(3,5,6) by (auto simp: routed_def route_of_def asked_def split: prod.split bool.split option.split)
  moreover have "route_counter st (GlobalKey k) = None" using assms(2) by simp
  ultimately show ?thesis using client_admission assms by blast
qed

text \<open>C3: An address is limited by the global limit, counted over the requests that carry no key;
  a key that spells like the address does not share its counter.\<close>

theorem address_limited:
  assumes "lim_windows ws st" and "UnknownMap_Get (ls_unknown st) (''ip:'' @ a) = None" and "a \<noteq> []"
    and "in_int64 (sint (lGlobalLimit l) + sint (lBurst l))"
    and "int (length (client_times (\<lambda>k ip. k = [] \<and> ip = a) qs)) < 2 ^ 63"
    and "sorted (map (\<lambda>t. sint (slot_at ws t)) (client_times (\<lambda>k ip. k = [] \<and> ip = a) qs))"
  shows "\<exists>bs st'. decide_all l lookup qs st = (Inr bs, st') \<and> length bs = length qs
    \<and> client_allowed (\<lambda>k ip. k = [] \<and> ip = a) ws s qs bs =
        min (count_list (map (slot_at ws) (client_times (\<lambda>k ip. k = [] \<and> ip = a) qs)) s)
          (nat (sint (lGlobalLimit l) + sint (lBurst l)))"
proof -
  have "routed (lGlobalLimit l) lookup (\<lambda>k ip. k = [] \<and> ip = a) (\<lambda>_. True) (Address a) (lGlobalLimit l)"
    using assms(3) by (auto simp: routed_def route_of_def asked_def split: prod.split bool.split option.split)
  moreover have "route_counter st (Address a) = None" using assms(2) by simp
  ultimately show ?thesis using client_admission assms by blast
qed

section \<open>Witnesses over the in-memory Redis\<close>

lemma LookupLimit_redis:
  "st_redis (snd (LookupLimit c k s)) = snd (rc_hget (limits c) (limit_key k) ''limit'' (st_redis s))"
  by (auto simp: LookupLimit_eq Let_def split: sum.splits prod.splits option.splits)

lemma example_quiet:
  assumes "st_redis s = example_db"
  shows "st_redis (snd (LookupLimit mem_clients k s)) = example_db"
    and "fst (LookupLimit mem_clients ''b'' s) = (7, True, None)"
    and "fst (LookupLimit mem_clients ''a'' s) \<noteq> (lim, True, None)"
proof -
  have b: "rc_hget (limits mem_clients) (limit_key ''b'') ''limit'' example_db = (Inr ''7'', example_db)"
    and a: "rc_hget (limits mem_clients) (limit_key ''a'') ''limit'' example_db = (Inr ''12x'', example_db)"
    and p7: "ParseInt ''7'' = (7, None)" and p12: "ParseInt ''12x'' = (0, Some ErrSyntax)"
    by code_simp+
  show "st_redis (snd (LookupLimit mem_clients k s)) = example_db"
    using assms by (auto simp: LookupLimit_redis mem_client_def split: option.splits)
  show "fst (LookupLimit mem_clients ''b'' s) = (7, True, None)"
    using assms b p7 by (simp add: LookupLimit_eq Let_def)
  show "fst (LookupLimit mem_clients ''a'' s) \<noteq> (lim, True, None)"
    using assms a p12 by (simp add: LookupLimit_eq Let_def)
qed

definition fresh_state :: "'s \<Rightarrow> 's lim_state" where
  "fresh_state s = \<lparr>ls_known = NewKnownMap 60, ls_unknown = NewUnknownMap 60,
     ls_metrics = zero_metrics, ls_store = s\<rparr>"

definition sample_mix :: "request list" where
  "sample_mix = replicate 9 (unix_time 120, ''b'', ''1.2.3.4'')
     @ [(unix_time 121, ''a'', []), (unix_time 122, [], ''1.2.3.4''), (unix_time 123, ''a'', ''::1''),
        (unix_time 124, [], ''1.2.3.4''), (unix_time 125, ''a'', []), (unix_time 126, [], ''1.2.3.4'')]"

lemma fresh_state_simps [simp]:
  "lim_windows 60 (fresh_state s)" "KnownMap_Get (ls_known (fresh_state s)) k = None"
  "UnknownMap_Get (ls_unknown (fresh_state s)) k = None" "ls_store (fresh_state s) = s"
  by (simp_all add: fresh_state_def lim_windows_def counter_defs)

theorem limiter_refines_spec_witness:
  "\<exists>bs st'. decide_all (limiter_New 1 1 10) (LookupLimit mem_clients) sample_mix (fresh_state (mem_store example_db))
      = (Inr bs, st') \<and> requests_decided (ls_metrics st') = 15"
proof -
  have n: "requests_decided (ls_metrics (fresh_state (mem_store example_db))) = 0" "length sample_mix = 15"
    by code_simp+
  show ?thesis
    using limiter_refines_spec[of 60 "fresh_state (mem_store example_db)" "limiter_New 1 1 10"
        "LookupLimit mem_clients" sample_mix] n by auto
qed

theorem known_key_limited_witness:
  "\<exists>bs st'. decide_all (limiter_New 1 1 10) (LookupLimit mem_clients) sample_mix (fresh_state (mem_store example_db))
      = (Inr bs, st') \<and> client_allowed (\<lambda>k' ip. k' = ''b'') 60 2 sample_mix bs = 8"
proof -
  have eval: "count_list (map (slot_at 60) (client_times (\<lambda>k' ip. k' = ''b'') sample_mix)) 2 = 9"
    "int (length (client_times (\<lambda>k' ip. k' = ''b'') sample_mix)) < 2 ^ 63"
    "sorted (map (\<lambda>t. sint (slot_at 60 t)) (client_times (\<lambda>k' ip. k' = ''b'') sample_mix))"
    by code_simp+
  have db: "st_redis (mem_store example_db) = example_db" by (simp add: mem_store_def store_New_def)
  show ?thesis
    using known_key_limited[of 60 "fresh_state (mem_store example_db)" "''b''" "\<lambda>s. st_redis s = example_db"
        "LookupLimit mem_clients" 7 "limiter_New 1 1 10" sample_mix 2] eval db example_quiet
    by (auto simp: limiter_New_def)
qed

theorem unknown_key_limited_witness:
  "\<exists>bs st'. decide_all (limiter_New 1 1 10) (LookupLimit mem_clients) sample_mix (fresh_state (mem_store example_db))
      = (Inr bs, st') \<and> client_allowed (\<lambda>k' ip. k' = ''a'') 60 2 sample_mix bs = 2"
proof -
  have eval: "count_list (map (slot_at 60) (client_times (\<lambda>k' ip. k' = ''a'') sample_mix)) 2 = 3"
    "int (length (client_times (\<lambda>k' ip. k' = ''a'') sample_mix)) < 2 ^ 63"
    "sorted (map (\<lambda>t. sint (slot_at 60 t)) (client_times (\<lambda>k' ip. k' = ''a'') sample_mix))"
    by code_simp+
  have db: "st_redis (mem_store example_db) = example_db" by (simp add: mem_store_def store_New_def)
  show ?thesis
    using unknown_key_limited[of 60 "fresh_state (mem_store example_db)" "''a''" "\<lambda>s. st_redis s = example_db"
        "LookupLimit mem_clients" "limiter_New 1 1 10" sample_mix 2] eval db example_quiet
    by (auto simp: limiter_New_def)
qed

theorem address_limited_witness:
  "\<exists>bs st'. decide_all (limiter_New 1 1 10) (LookupLimit mem_clients) sample_mix (fresh_state (mem_store example_db))
      = (Inr bs, st') \<and> client_allowed (\<lambda>k ip. k = [] \<and> ip = ''1.2.3.4'') 60 2 sample_mix bs = 2"
proof -
  have eval: "count_list (map (slot_at 60) (client_times (\<lambda>k ip. k = [] \<and> ip = ''1.2.3.4'') sample_mix)) 2 = 3"
    "int (length (client_times (\<lambda>k ip. k = [] \<and> ip = ''1.2.3.4'') sample_mix)) < 2 ^ 63"
    "sorted (map (\<lambda>t. sint (slot_at 60 t)) (client_times (\<lambda>k ip. k = [] \<and> ip = ''1.2.3.4'') sample_mix))"
    by code_simp+
  show ?thesis
    using address_limited[of 60 "fresh_state (mem_store example_db)" "''1.2.3.4''" "limiter_New 1 1 10"
        sample_mix "LookupLimit mem_clients" 2] eval
    by (auto simp: limiter_New_def)
qed

section \<open>What the metrics attribute\<close>

fun to_known :: "(route \<times> int64) option \<Rightarrow> bool" where
  "to_known (Some (KnownKey k, limit)) = True"
| "to_known _ = False"

fun lookup_errors ::
  "(string \<Rightarrow> 's \<Rightarrow> (int64 \<times> bool \<times> go_err option) \<times> 's) \<Rightarrow> request list \<Rightarrow> 's \<Rightarrow> nat" where
  "lookup_errors lookup [] s = 0"
| "lookup_errors lookup ((t, k, ip) # qs) s =
     (case asked lookup k s of ((l, f, e), s') \<Rightarrow>
        (if e = None then 0 else 1) + lookup_errors lookup qs s')"

lemma count_result_parts:
  "RequestsAllowed (count_result (map_option fst d) b m) = RequestsAllowed m + (if b then 1 else 0)"
  "RequestsBlockedIndividual (count_result (map_option fst d) b m) =
     RequestsBlockedIndividual m + (if \<not> b \<and> to_known d then 1 else 0)"
  "RequestsBlockedGlobal (count_result (map_option fst d) b m) =
     RequestsBlockedGlobal m + (if \<not> b \<and> \<not> to_known d then 1 else 0)"
  "RedisErrorsTotal (count_result (map_option fst d) b m) = RedisErrorsTotal m"
  by (cases d rule: to_known.cases; simp add: count_result_def metric_simps)+

text \<open>C36: The result metrics say why. Over any run, the allowed counter grows by the allowed
  requests, "blocked_individual" by the refused ones that went to a key with a limit of its own,
  "blocked_global" by the other refused ones, and the Redis error counter by the lookups that
  failed.\<close>

theorem metrics_attribute:
  assumes "lim_windows ws st" and "decide_all l lookup qs st = (Inr bs, st')"
  defines "ds \<equiv> map snd (destinations (lGlobalLimit l) lookup qs (ls_store st))"
  shows "RequestsAllowed (ls_metrics st') = RequestsAllowed (ls_metrics st) + length (filter id bs)
    \<and> RequestsBlockedIndividual (ls_metrics st') = RequestsBlockedIndividual (ls_metrics st)
        + length (filter (\<lambda>(d, b). \<not> b \<and> to_known d) (zip ds bs))
    \<and> RequestsBlockedGlobal (ls_metrics st') = RequestsBlockedGlobal (ls_metrics st)
        + length (filter (\<lambda>(d, b). \<not> b \<and> \<not> to_known d) (zip ds bs))
    \<and> RedisErrorsTotal (ls_metrics st') = RedisErrorsTotal (ls_metrics st)
        + lookup_errors lookup qs (ls_store st)"
  using assms(1,2) unfolding ds_def
proof (induction qs arbitrary: st bs)
  case (Cons q qs)
  obtain t k ip where q: "q = (t, k, ip)" by (cases q) auto
  let ?a = "asked lookup k (ls_store st)"
  let ?d = "route_of (lGlobalLimit l) (fst ?a) k ip"
  let ?b = "fst (decide_spec l ws t ?d (route_counter st))"
  obtain st1 where st1: "Decide l lookup t k ip st = (Inr ?b, st1)" "lim_windows ws st1"
    "ls_store st1 = snd ?a"
    "ls_metrics st1 = count_result (map_option fst ?d) ?b
       ((if snd (snd (fst ?a)) = None then id else inc_redis_errors) (ls_metrics st))"
    using Decide_refines[OF Cons.prems(1), where l = l and lookup = lookup and now = t and apiKey = k and ip = ip]
    by blast
  have "\<exists>bs'. bs = ?b # bs' \<and> decide_all l lookup qs st1 = (Inr bs', st')"
    using Cons.prems(2) st1(1) q by (auto split: prod.splits sum.splits)
  then obtain bs' where bs: "bs = ?b # bs'" "decide_all l lookup qs st1 = (Inr bs', st')" by blast
  show ?case
    using Cons.IH[OF st1(2) bs(2)] q bs(1) st1(3,4)
    by (cases ?b; simp add: case_prod_beta count_result_parts metric_simps)
qed simp

theorem metrics_attribute_witness:
  "\<exists>bs st'. decide_all (limiter_New 1 1 10) (LookupLimit mem_clients) sample_mix (fresh_state (mem_store example_db))
      = (Inr bs, st') \<and> RedisErrorsTotal (ls_metrics st') = 3"
proof -
  let ?st = "fresh_state (mem_store example_db)"
  obtain bs st' where run: "decide_all (limiter_New 1 1 10) (LookupLimit mem_clients) sample_mix ?st = (Inr bs, st')"
    using decide_all_refines[of 60 ?st] by force
  have "lookup_errors (LookupLimit mem_clients) sample_mix (mem_store example_db) = 3"
    "RedisErrorsTotal (ls_metrics ?st) = 0"
    by code_simp+
  with metrics_attribute[OF _ run, of 60] run show ?thesis by auto
qed

section \<open>The limiter is a decider\<close>

interpretation dec: decider "\<lambda>k ip. Decide l lookup now k ip" "\<lambda>st. lim_windows ws st"
    "\<lambda>st. requests_decided (ls_metrics st)" for l lookup now ws
proof (unfold_locales, goal_cases)
  case (1 st k ip)
  show ?case
    using Decide_refines[OF 1, where l = l and lookup = lookup and now = now and apiKey = k and ip = ip]
    by fastforce
qed (simp add: Decide_def)

end
