(* ===== verification/Go_Query.thy ===== *)
theory Go_Query
  imports Go_Net
begin

text \<open>
  Facts on \<^verbatim>\<open>net/url\<close>'s query escaping that the \<^verbatim>\<open>/check\<close> endpoint and the admin links share: what is
  percent-encoded decodes to itself, carries no separator, and parses as the setting it was made of.
\<close>

lemma ParseQuery_Nil [simp]: "ParseQuery [] = []"
  by code_simp

lemma query_get_Nil [simp]: "query_get [] k = []"
  by (simp add: query_get_def)

lemma hex_val_digit: "0 \<le> n \<Longrightarrow> n < 16 \<Longrightarrow> hex_val (hex_digit n) = Some n"
proof -
  assume "0 \<le> n" "n < 16"
  then have "n \<in> set [0..15]" by simp
  moreover have "\<forall>n\<in>set [0..15]. hex_val (hex_digit n) = Some n" by code_simp
  ultimately show ?thesis by blast
qed

lemma all_bytes:
  assumes "list_all (\<lambda>n. P (char_of n)) [0..255 :: int]"
  shows "P (c :: char)"
proof -
  have "0 \<le> byte_of c" "byte_of c < 256" by (cases c; simp)+
  then have "byte_of c \<in> set [0..255]" by simp
  from assms[unfolded list_all_iff, rule_format, OF this] show ?thesis by simp
qed

text \<open>What a byte may be escaped to.\<close>

definition escape_safe :: "char \<Rightarrow> bool" where
  "escape_safe c \<longleftrightarrow> unreserved c \<or> c = CHR ''+'' \<or> c = CHR ''%''"

lemma escape_char_safe: "list_all escape_safe (escape_char c)"
  by (rule all_bytes[of "\<lambda>c. list_all escape_safe (escape_char c)"]) code_simp

lemma unescape_escape_char:
  "QueryUnescape (escape_char c @ rest) = map_option (Cons c) (QueryUnescape rest)"
proof (cases "unreserved c \<or> c = CHR '' ''")
  case True
  moreover have "unreserved c \<longrightarrow> c \<noteq> CHR ''%'' \<and> c \<noteq> CHR ''+''"
    by (rule all_bytes[of "\<lambda>c. unreserved c \<longrightarrow> c \<noteq> CHR ''%'' \<and> c \<noteq> CHR ''+''"]) code_simp
  ultimately show ?thesis by (auto simp: escape_char_def)
next
  case False
  have "0 \<le> byte_of c" "byte_of c < 256" by (cases c; simp)+
  then have "hex_val (hex_digit (byte_of c div 16)) = Some (byte_of c div 16)"
    "hex_val (hex_digit (byte_of c mod 16)) = Some (byte_of c mod 16)"
    by (auto intro!: hex_val_digit)
  moreover have "char_of (16 * (byte_of c div 16) + byte_of c mod 16) = c" by simp
  ultimately show ?thesis using False by (simp add: escape_char_def del: mult_div_mod_eq)
qed

lemma unescape_escape: "QueryUnescape (QueryEscape s) = Some s"
  by (induction s) (simp_all add: QueryEscape_def unescape_escape_char)

lemma QueryEscape_safe: "list_all escape_safe (QueryEscape s)"
  by (induction s) (simp_all add: QueryEscape_def escape_char_safe)

lemma escape_safe_apart:
  "escape_safe c \<Longrightarrow> c \<notin> set (CHR ''&'' # ''=;#?'') \<and> \<not> has_ctl_byte [c]"
proof -
  have "escape_safe c \<longrightarrow> c \<notin> set (CHR ''&'' # ''=;#?'') \<and> \<not> has_ctl_byte [c]"
    by (rule all_bytes[of "\<lambda>c. escape_safe c \<longrightarrow> c \<notin> set (CHR ''&'' # ''=;#?'') \<and> \<not> has_ctl_byte [c]"]) code_simp
  then show "escape_safe c \<Longrightarrow> ?thesis" by blast
qed

lemma QueryEscape_apart:
  "CHR ''&'' \<notin> set (QueryEscape s)" "CHR ''='' \<notin> set (QueryEscape s)"
  "CHR '';'' \<notin> set (QueryEscape s)" "CHR ''#'' \<notin> set (QueryEscape s)"
  "CHR ''?'' \<notin> set (QueryEscape s)" "\<not> has_ctl_byte (QueryEscape s)"
proof -
  note safe = QueryEscape_safe[of s, unfolded list_all_iff, rule_format]
  show "CHR ''&'' \<notin> set (QueryEscape s)" "CHR ''='' \<notin> set (QueryEscape s)"
    "CHR '';'' \<notin> set (QueryEscape s)" "CHR ''#'' \<notin> set (QueryEscape s)"
    "CHR ''?'' \<notin> set (QueryEscape s)"
    using escape_safe_apart[OF safe] by force+
  show "\<not> has_ctl_byte (QueryEscape s)"
    using escape_safe_apart[OF safe] by (force simp: has_ctl_byte_def list_ex_iff)
qed

lemma split_on_none: "c \<notin> set s \<Longrightarrow> split_on c s = [s]"
  by (induction s) auto

lemma split_on_append: "c \<notin> set s \<Longrightarrow> split_on c (s @ c # t) = s # split_on c t"
  by (induction s) auto

lemma query_setting_escaped:
  assumes "name = QueryEscape name" and "name \<noteq> []"
  shows "query_setting (name @ CHR ''='' # QueryEscape v) = Some (name, v)"
    and "CHR ''&'' \<notin> set (name @ CHR ''='' # QueryEscape v)"
proof -
  have eq: "CHR ''='' \<notin> set name" and "CHR '';'' \<notin> set (name @ CHR ''='' # QueryEscape v)"
    by (use QueryEscape_apart[of v] QueryEscape_apart[of name] assms(1) in auto)
  then show "query_setting (name @ CHR ''='' # QueryEscape v) = Some (name, v)"
    using unescape_escape[of name] assms
    by (simp add: query_setting_def cut_at_append[OF eq] unescape_escape)
  show "CHR ''&'' \<notin> set (name @ CHR ''='' # QueryEscape v)"
    by (use QueryEscape_apart[of v] QueryEscape_apart[of name] assms(1) in auto)
qed

lemma ParseQuery_escaped:
  assumes "name = QueryEscape name" and "name \<noteq> []"
  shows "ParseQuery (name @ CHR ''='' # QueryEscape k) = [(name, k)]"
  using query_setting_escaped[OF assms, of k] by (simp add: ParseQuery_def split_on_none map_filter_simps)

end
