(* ===== verification/Handler_Correct.thy ===== *)
theory Handler_Correct
  imports Handler Limiter_Correct Go_Query
begin

text \<open>
  Correctness of the \<^verbatim>\<open>/check\<close> endpoint: the key is the first non-empty one of five sources, a key
  survives the percent-encoding the proxy puts it through, an address is a valid one or absent,
  every request is answered 200 or 403 and panics fail open; over the limiter, each request is
  decided once.
\<close>

section \<open>Which key\<close>

text \<open>The five sources, in the documented order.\<close>

definition key_sources :: "http_request \<Rightarrow> string list" where
  "key_sources r =
     (let original = (case url_Parse (header_get r ''X-Original-URI'') of
                        None \<Rightarrow> [] | Some raw \<Rightarrow> ParseQuery raw)
      in [header_get r ''X-Api-Key'', query_get (url_query r) ''api_key'',
          query_get (url_query r) ''token'', query_get original ''api_key'',
          query_get original ''token''])"

fun first_nonempty :: "string list \<Rightarrow> string" where
  "first_nonempty [] = []"
| "first_nonempty (s # ss) = (if s \<noteq> [] then s else first_nonempty ss)"

lemma url_Parse_Nil: "url_Parse [] = Some []"
  by code_simp

text \<open>C29: The key of a request is the first non-empty one of: the \<^verbatim>\<open>X-Api-Key\<close> header, the \<^verbatim>\<open>api_key\<close> and
  \<^verbatim>\<open>token\<close> parameters of the request's own query, and those of the query of \<^verbatim>\<open>X-Original-URI\<close>, if that
  parses. A URI that does not parse, or malformed parameters, count as absent.\<close>

theorem extractKey_first_source: "extractKey r = first_nonempty (key_sources r)"
  by (auto simp: extractKey_def key_sources_def Let_def url_Parse_Nil split: option.split)

section \<open>Keys survive the proxy\<close>

text \<open>A request path of unreserved bytes, as the proxied URI's.\<close>

lemma url_Parse_query:
  assumes "list_all (\<lambda>c. unreserved c \<or> c = CHR ''/'') path" and "\<not> HasPrefix path ''/''"
    and "CHR ''#'' \<notin> set q" and "\<not> has_ctl_byte q"
  shows "url_Parse (CHR ''/'' # path @ CHR ''?'' # q) = Some q"
proof -
  have path: "c \<notin> set (CHR ''%'' # ''?#'') \<and> \<not> has_ctl_byte [c]" if "unreserved c \<or> c = CHR ''/''" for c
  proof -
    have "(unreserved c \<or> c = CHR ''/'') \<longrightarrow> c \<notin> set (CHR ''%'' # ''?#'') \<and> \<not> has_ctl_byte [c]"
      by (rule all_bytes[of "\<lambda>c. (unreserved c \<or> c = CHR ''/'') \<longrightarrow>
            c \<notin> set (CHR ''%'' # ''?#'') \<and> \<not> has_ctl_byte [c]"]) code_simp
    with that show ?thesis by blast
  qed
  let ?u = "CHR ''/'' # path @ CHR ''?'' # q"
  have chars: "CHR ''#'' \<notin> set path" "CHR ''?'' \<notin> set path" "CHR ''%'' \<notin> set path"
    "\<not> has_ctl_byte path"
    using assms(1) path by (force simp: list_all_iff has_ctl_byte_def list_ex_iff)+
  have "cut_at (CHR ''#'') ?u = (?u, [], False)"
    using chars assms(3) by (intro cut_at_none) auto
  moreover have "\<not> has_ctl_byte ?u"
    using chars(4) assms(4) by (auto simp: has_ctl_byte_def)
  moreover have "scheme_loop ?u [] ?u = Some ([], ?u)"
    by (simp add: is_alpha_def is_digit_def digit_val_def)
  moreover have "cut_at (CHR ''?'') ?u = (CHR ''/'' # path, q, True)"
    using cut_at_append[of "CHR ''?''" "CHR ''/'' # path" q] chars(2) by simp
  moreover have "pct_ok p" if "CHR ''%'' \<notin> set p" for p
    using that by (induction p) auto
  then have "url_parse_rest [] (CHR ''/'' # path)"
    using chars(3) assms(2) by (auto simp: url_parse_rest_def HasPrefix_def)
  ultimately show ?thesis by (simp add: url_Parse_def)
qed

text \<open>C30: A key survives the proxy. Whatever bytes a non-empty key has, if the proxy hands it on
  percent-encoded, as \<^verbatim>\<open>api_key\<close> or \<^verbatim>\<open>token\<close> in the query of the subrequest or of the original URI (any
  path of unreserved bytes), and no source of higher priority names a key, the limiter sees exactly
  that key.\<close>

theorem key_survives_proxy:
  assumes "header_get r ''X-Api-Key'' = []" and "k \<noteq> []" and "name \<in> {''api_key'', ''token''}"
    and "hr_rawQuery r = name @ ''='' @ QueryEscape k
       \<or> (hr_rawQuery r = [] \<and> header_get r ''X-Original-URI'' = ''/'' @ path @ ''?'' @ name @ ''='' @ QueryEscape k
          \<and> list_all (\<lambda>c. unreserved c \<or> c = CHR ''/'') path \<and> \<not> HasPrefix path ''/'')"
  shows "extractKey r = k"
proof -
  have name: "name = QueryEscape name" "name \<noteq> []"
    using assms(3) by (auto, code_simp+)
  have parse: "ParseQuery (name @ ''='' @ QueryEscape k) = [(name, k)]"
    using ParseQuery_escaped[OF name] by simp
  have q: "CHR ''#'' \<notin> set (name @ ''='' @ QueryEscape k)" "\<not> has_ctl_byte (name @ ''='' @ QueryEscape k)"
  proof -
    show "CHR ''#'' \<notin> set (name @ ''='' @ QueryEscape k)"
      using QueryEscape_apart(4)[of name] QueryEscape_apart(4)[of k] name by simp
    show "\<not> has_ctl_byte (name @ ''='' @ QueryEscape k)"
      using QueryEscape_apart(6)[of name] QueryEscape_apart(6)[of k] name by (simp add: has_ctl_byte_def)
  qed
  from assms(4) show ?thesis
  proof
    assume "hr_rawQuery r = name @ ''='' @ QueryEscape k"
    with assms(1-3) parse show ?thesis
      by (auto simp: extractKey_def Let_def url_query_def query_get_def)
  next
    assume "hr_rawQuery r = [] \<and> header_get r ''X-Original-URI'' = ''/'' @ path @ ''?'' @ name @ ''='' @ QueryEscape k
          \<and> list_all (\<lambda>c. unreserved c \<or> c = CHR ''/'') path \<and> \<not> HasPrefix path ''/''"
    with assms(1-3) parse url_Parse_query[OF _ _ q, of path] show ?thesis
      by (auto simp: extractKey_def Let_def url_query_def query_get_def)
  qed
qed

theorem key_survives_proxy_witness:
  "extractKey \<lparr>hr_method = ''GET'', hr_header = [(''X-Original-Uri'', ''/v1/geo?token=a%26b+c'')], hr_rawQuery = []\<rparr>
     = ''a&b c''"
proof (rule key_survives_proxy[where name = "''token''" and path = "''v1/geo''"])
  show "header_get \<lparr>hr_method = ''GET'', hr_header = [(''X-Original-Uri'', ''/v1/geo?token=a%26b+c'')],
      hr_rawQuery = []\<rparr> ''X-Api-Key'' = []"
    by code_simp
  have e: "QueryEscape ''a&b c'' = ''a%26b+c''" by code_simp
  have h: "header_get \<lparr>hr_method = ''GET'', hr_header = [(''X-Original-Uri'', ''/v1/geo?token=a%26b+c'')],
      hr_rawQuery = []\<rparr> ''X-Original-URI'' = ''/v1/geo?token=a%26b+c''"
    by code_simp
  have p: "list_all (\<lambda>c. unreserved c \<or> c = CHR ''/'') ''v1/geo''" "\<not> HasPrefix ''v1/geo'' ''/''"
    by code_simp+
  show "hr_rawQuery \<lparr>hr_method = ''GET'', hr_header = [(''X-Original-Uri'', ''/v1/geo?token=a%26b+c'')],
      hr_rawQuery = []\<rparr> = ''token'' @ ''='' @ QueryEscape ''a&b c''
    \<or> (hr_rawQuery \<lparr>hr_method = ''GET'', hr_header = [(''X-Original-Uri'', ''/v1/geo?token=a%26b+c'')],
        hr_rawQuery = []\<rparr> = []
      \<and> header_get \<lparr>hr_method = ''GET'', hr_header = [(''X-Original-Uri'', ''/v1/geo?token=a%26b+c'')],
        hr_rawQuery = []\<rparr> ''X-Original-URI'' = ''/'' @ ''v1/geo'' @ ''?'' @ ''token'' @ ''='' @ QueryEscape ''a&b c''
      \<and> list_all (\<lambda>c. unreserved c \<or> c = CHR ''/'') ''v1/geo'' \<and> \<not> HasPrefix ''v1/geo'' ''/'')"
    using e h p by simp
qed simp_all

section \<open>Which address\<close>

text \<open>C31: Whatever a client puts into \<^verbatim>\<open>X-Real-IP\<close>, the address the limiter sees is empty or a
  textual IP address: hexadecimal digits, colons and dots only, at most 65 bytes, so the header
  cannot plant arbitrary or huge counter keys. A header that holds no address counts as missing.\<close>

theorem extractIP_valid:
  "(extractIP r = [] \<or> extractIP r = TrimSpace (header_get r ''X-Real-IP'') \<and> ParseIP_ok (extractIP r))
   \<and> (\<not> ParseIP_ok (TrimSpace (header_get r ''X-Real-IP'')) \<longrightarrow> extractIP r = [])
   \<and> length (extractIP r) \<le> 65 \<and> (\<forall>c\<in>set (extractIP r). is_hex c \<or> c = CHR '':'' \<or> c = CHR ''.'')"
  using ParseIP_ok_shape[of "extractIP r"]
  by (auto simp: extractIP_def Let_def list_all_iff addr_char_def)

theorem extractIP_valid_witness:
  "extractIP \<lparr>hr_method = ''GET'', hr_header = [(''X-Real-Ip'', '' 10.0.0.256'')], hr_rawQuery = []\<rparr> = []
   \<and> extractIP \<lparr>hr_method = ''GET'', hr_header = [(''X-Real-Ip'', '' ::ffff:10.0.0.25 '')], hr_rawQuery = []\<rparr>
       = ''::ffff:10.0.0.25''"
proof -
  have bad: "\<not> ParseIP_ok (TrimSpace (header_get \<lparr>hr_method = ''GET'',
      hr_header = [(''X-Real-Ip'', '' 10.0.0.256'')], hr_rawQuery = []\<rparr> ''X-Real-IP''))"
    and good: "extractIP \<lparr>hr_method = ''GET'', hr_header = [(''X-Real-Ip'', '' ::ffff:10.0.0.25 '')],
      hr_rawQuery = []\<rparr> = ''::ffff:10.0.0.25''"
    by code_simp+
  show ?thesis
    using extractIP_valid[of "\<lparr>hr_method = ''GET'', hr_header = [(''X-Real-Ip'', '' 10.0.0.256'')], hr_rawQuery = []\<rparr>"]
      bad good by blast
qed

section \<open>Which answer\<close>

text \<open>C32: Whatever the decider does, a panic included, \<^verbatim>\<open>/check\<close> answers 200 or 403, and 403 exactly
  when the decider returned "not allowed". The duration is observed once, after the decision, on
  every path, and a panic is logged.\<close>

theorem check_fails_open:
  assumes "decide (extractKey r) (extractIP r) s = (ans, s')"
    and "ServeHTTP decide obs start fin r s = (w, log, s'')"
  shows "w = Some (if ans = Inr False then 403 else 200)
    \<and> s'' = obs (time_Sub fin start) s'
    \<and> (\<forall>p. CheckPanic p \<in> set log \<longleftrightarrow> ans = Inl p)"
  using assms by (auto simp: ServeHTTP_def Let_def WriteHeader_def StatusOK_def StatusForbidden_def
      split: sum.splits if_splits)

theorem check_fails_open_witness:
  "fst (ServeHTTP (\<lambda>k ip s. (Inl DivideByZero, s)) (\<lambda>d s. d # s) (unix_time 1) (unix_time 3)
     \<lparr>hr_method = ''GET'', hr_header = [], hr_rawQuery = []\<rparr> []) = Some 200"
proof -
  let ?serve = "ServeHTTP (\<lambda>k ip s. (Inl DivideByZero, s)) (\<lambda>d s. d # s) (unix_time 1) (unix_time 3)
     \<lparr>hr_method = ''GET'', hr_header = [], hr_rawQuery = []\<rparr> []"
  obtain w log s where "?serve = (w, log, s)" by (cases ?serve)
  with check_fails_open[OF refl this] show ?thesis by simp
qed

section \<open>The endpoint over the limiter\<close>

interpretation od: observed_decider "\<lambda>k ip. Decide l lookup now k ip" "\<lambda>st. lim_windows ws st"
    "\<lambda>st. requests_decided (ls_metrics st)" "\<lambda>d. with_metrics (observe_check d)" for l lookup now ws
  by unfold_locales simp_all

text \<open>The endpoint over the limiter: one request, with the clock readings at its start, in the
  counter map and at its end.\<close>

definition check_request ::
  "limiter \<Rightarrow> (string \<Rightarrow> 's \<Rightarrow> (int64 \<times> bool \<times> go_err option) \<times> 's) \<Rightarrow> go_time \<Rightarrow> go_time \<Rightarrow> go_time
     \<Rightarrow> http_request \<Rightarrow> 's lim_state \<Rightarrow> nat option \<times> check_log list \<times> 's lim_state" where
  "check_request l lookup start now fin r st =
     ServeHTTP (\<lambda>k ip. Decide l lookup now k ip) (\<lambda>d. with_metrics (observe_check d)) start fin r st"

fun check_all ::
  "limiter \<Rightarrow> (string \<Rightarrow> 's \<Rightarrow> (int64 \<times> bool \<times> go_err option) \<times> 's)
     \<Rightarrow> (go_time \<times> go_time \<times> go_time \<times> http_request) list \<Rightarrow> 's lim_state \<Rightarrow> nat list \<times> 's lim_state" where
  "check_all l lookup [] st = ([], st)"
| "check_all l lookup ((start, now, fin, r) # rs) st =
     (let res = check_request l lookup start now fin r st;
          (codes, st') = check_all l lookup rs (snd (snd res))
      in (response_status res # codes, st'))"

text \<open>The answers to a list of requests.\<close>

lemma check_all_serves:
  assumes "lim_windows ws st"
  shows "(let (codes, st') = check_all l lookup rs st in
      length codes = length rs \<and> set codes \<subseteq> {200, 403} \<and> lim_windows ws st'
      \<and> requests_decided (ls_metrics st') = requests_decided (ls_metrics st) + length rs
      \<and> (\<forall>i < length rs. extractKey (snd (snd (snd (rs ! i)))) = []
            \<and> extractIP (snd (snd (snd (rs ! i)))) = [] \<longrightarrow> codes ! i = 200))"
  using assms
proof (induction rs arbitrary: st)
  case (Cons q rs)
  obtain start now fin r where q: "q = (start, now, fin, r)" by (cases q) auto
  let ?res = "check_request l lookup start now fin r st"
  obtain b where b: "fst ?res = Some (if b then 200 else 403)" "lim_windows ws (snd (snd ?res))"
    "requests_decided (ls_metrics (snd (snd ?res))) = Suc (requests_decided (ls_metrics st))"
    unfolding check_request_def using od.serve_decides_once[OF Cons.prems] by metis
  have keyless: "extractKey r = [] \<Longrightarrow> extractIP r = [] \<Longrightarrow> fst ?res = Some 200"
    unfolding check_request_def by (rule od.serve_keyless)
  show ?case
    using Cons.IH[OF b(2)] b q keyless
    by (auto simp: Let_def case_prod_beta response_status_def nth_Cons split: nat.split if_splits)
qed simp

text \<open>C9: Every request to \<^verbatim>\<open>/check\<close> is answered, with 200 or 403, whatever it carries and whatever the
  lookup does; each is decided and counted exactly once, and a request without a usable key or
  address is always answered with 200.\<close>

theorem check_serves_all:
  assumes "lim_windows ws st" and "check_all l lookup rs st = (codes, st')"
  shows "length codes = length rs \<and> set codes \<subseteq> {200, 403}
    \<and> requests_decided (ls_metrics st') = requests_decided (ls_metrics st) + length rs
    \<and> (\<forall>i < length rs. extractKey (snd (snd (snd (rs ! i)))) = []
          \<and> extractIP (snd (snd (snd (rs ! i)))) = [] \<longrightarrow> codes ! i = 200)"
  using check_all_serves[OF assms(1), of l lookup rs] assms(2) by (simp add: Let_def)

theorem check_serves_all_witness:
  "(let r = \<lparr>hr_method = ''GET'', hr_header = [(''X-Real-Ip'', ''::1'')], hr_rawQuery = []\<rparr>;
        res = check_all (limiter_New 1 0 10) (LookupLimit mem_clients)
          [(unix_time 60, unix_time 60, unix_time 60, r), (unix_time 60, unix_time 61, unix_time 61, r)]
          (fresh_state (mem_store example_db))
    in fst res = [200, 403] \<and> requests_decided (ls_metrics (snd res)) = 2)"
proof -
  let ?r = "\<lparr>hr_method = ''GET'', hr_header = [(''X-Real-Ip'', ''::1'')], hr_rawQuery = []\<rparr>"
  let ?rs = "[(unix_time 60, unix_time 60, unix_time 60, ?r), (unix_time 60, unix_time 61, unix_time 61, ?r)]"
  let ?st = "fresh_state (mem_store example_db)"
  obtain codes st' where run: "check_all (limiter_New 1 0 10) (LookupLimit mem_clients) ?rs ?st = (codes, st')"
    by (cases "check_all (limiter_New 1 0 10) (LookupLimit mem_clients) ?rs ?st")
  have "fst (check_all (limiter_New 1 0 10) (LookupLimit mem_clients) ?rs ?st) = [200, 403]"
    "requests_decided (ls_metrics ?st) = 0"
    by code_simp+
  with check_serves_all[OF fresh_state_simps(1) run] run show ?thesis by simp
qed

end
