(* ===== verification/Cleanup.thy ===== *)
theory Cleanup
  imports Interfaces Counter_Correct Metrics
begin

text \<open>
  \<^verbatim>\<open>internal/cleanup/cleanup.go\<close>: the periodic cleanup of the two counter maps. The store is used
  through its interface (\<open>cleanup_ops\<close>, instantiated with the store in \<open>Cleanup_Correct\<close>). The cleanup
  runs beside the request handlers, which may change both maps and the store between any two of its
  steps; those points are named (\<open>cleanup_point\<close>) and what happens there is an argument \<open>env\<close>, a
  function of the point and the state. In one run no point is passed twice, since a snapshot holds
  a key once, so an arbitrary \<open>env\<close> covers every interleaving; the identity is the run without
  interference.
\<close>

section \<open>State\<close>

record 's cleanup_ops =
  co_LimitExists :: "string \<Rightarrow> 's \<Rightarrow> (go_err + bool) \<times> 's"
  co_UpsertAbuseKey :: "string \<Rightarrow> abuse_record \<Rightarrow> duration \<Rightarrow> 's \<Rightarrow> go_err option \<times> 's"
  co_UpsertAbuseIP :: "string \<Rightarrow> abuse_record \<Rightarrow> duration \<Rightarrow> 's \<Rightarrow> go_err option \<times> 's"
  co_DBSize :: "'s \<Rightarrow> (go_err + int64 \<times> int64 \<times> int64) \<times> 's"
  co_IsHealthy :: "'s \<Rightarrow> bool"

record cleanup =
  cTransferThreshold :: int64
  cAbuseTTL :: duration

datatype cleanup_log =
    ExistsFailed string go_err
  | LimitRemoved string
  | UpsertFailed string go_err
  | CleanupFinished nat nat duration
  | CleanupPanic go_panic

record 's cl_state =
  cl_known :: known_map
  cl_unknown :: unknown_map
  cl_metrics :: metrics
  cl_store :: 's
  cl_log :: "cleanup_log list"

definition cleanup_New :: "int64 \<Rightarrow> duration \<Rightarrow> cleanup" where
  "cleanup_New transferThreshold abuseTTL =
     \<lparr>cTransferThreshold = transferThreshold, cAbuseTTL = abuseTTL\<rparr>"

definition cl_logs :: "cleanup_log \<Rightarrow> 's cl_state \<Rightarrow> 's cl_state" where
  "cl_logs e st = st\<lparr>cl_log := cl_log st @ [e]\<rparr>"

definition cl_count :: "(metrics \<Rightarrow> metrics) \<Rightarrow> 's cl_state \<Rightarrow> 's cl_state" where
  "cl_count f st = st\<lparr>cl_metrics := f (cl_metrics st)\<rparr>"

datatype cleanup_point =
    PointKnownSnapshot
  | PointExists string
  | PointKnownDrop string
  | PointHealth
  | PointUnknownSnapshot
  | PointGet string
  | PointUpsert string
  | PointUnknownDrop string
  | PointKnownLen
  | PointUnknownLen
  | PointKnownSize
  | PointUnknownSize
  | PointDBSize

type_synonym 's interference = "cleanup_point \<Rightarrow> 's cl_state \<Rightarrow> 's cl_state"

definition undisturbed :: "'s interference" where "undisturbed p st = st"

section \<open>Known counters\<close>

text \<open>The loop body of \<^verbatim>\<open>runKnown\<close>: how many counters it deleted.\<close>

definition known_entry ::
  "'s cleanup_ops \<Rightarrow> 's interference \<Rightarrow> go_time \<Rightarrow> string \<Rightarrow> 's cl_state \<Rightarrow> (go_panic + nat) \<times> 's cl_state" where
  "known_entry ops env now k st =
     (let st0 = env (PointExists k) st;
          (ans, s') = co_LimitExists ops k (cl_store st0);
          st1 = st0\<lparr>cl_store := s'\<rparr>
      in case ans of
           Inl err \<Rightarrow> (Inr 0, cl_logs (ExistsFailed k err) (cl_count inc_redis_errors st1))
         | Inr found \<Rightarrow>
             (let st2 = env (PointKnownDrop k) st1 in
              if \<not> found then
                (Inr 1, (cl_logs (LimitRemoved k) st2)\<lparr>cl_known := KnownMap_Delete (cl_known st2) k\<rparr>)
              else
                (case KnownMap_DeleteIfInactive (cl_known st2) k now of
                   Inl p \<Rightarrow> (Inl p, st2)
                 | Inr (m, gone) \<Rightarrow> (Inr (if gone then 1 else 0), st2\<lparr>cl_known := m\<rparr>))))"

fun known_entries ::
  "'s cleanup_ops \<Rightarrow> 's interference \<Rightarrow> go_time \<Rightarrow> (string \<times> known_counter) list \<Rightarrow> nat \<Rightarrow> 's cl_state
     \<Rightarrow> (go_panic + nat) \<times> 's cl_state" where
  "known_entries ops env now [] deleted st = (Inr deleted, st)"
| "known_entries ops env now ((k, c) # snaps) deleted st =
     (case known_entry ops env now k st of
        (Inl p, st1) \<Rightarrow> (Inl p, st1)
      | (Inr d, st1) \<Rightarrow> known_entries ops env now snaps (deleted + d) st1)"

text \<open>\<open>order\<close> is the iteration order of the map behind the snapshot. \<^verbatim>\<open>runKnown\<close> returns deleted and
  transferred; it never transfers.\<close>

definition runKnown ::
  "'s cleanup_ops \<Rightarrow> 's interference
     \<Rightarrow> ((string \<times> known_counter) list \<Rightarrow> (string \<times> known_counter) list)
     \<Rightarrow> go_time \<Rightarrow> 's cl_state \<Rightarrow> (go_panic + nat \<times> nat) \<times> 's cl_state" where
  "runKnown ops env order now st =
     (let st0 = env PointKnownSnapshot st in
      case known_entries ops env now (KnownMap_Snapshot order (cl_known st0)) 0 st0 of
        (Inl p, st1) \<Rightarrow> (Inl p, st1)
      | (Inr deleted, st1) \<Rightarrow> (Inr (deleted, 0), st1))"

section \<open>Unknown counters\<close>

definition abuse_record_of :: "unknown_counter \<Rightarrow> abuse_record" where
  "abuse_record_of c =
     \<lparr>arFirstSeen = time_Unix (uFirstRequest c), arLastSeen = time_Unix (uLastRequest c),
      arTotalRequests = uTotal c, arBurstHits = uBurstHits c, arAbuseHits = uAbuseHits c\<rparr>"

definition transfer ::
  "'s cleanup_ops \<Rightarrow> cleanup \<Rightarrow> string \<Rightarrow> unknown_counter \<Rightarrow> 's \<Rightarrow> go_err option \<times> 's" where
  "transfer ops c k live s =
     (let rc = abuse_record_of live in
      if HasPrefix k UnknownKeyPrefix then
        co_UpsertAbuseKey ops (TrimPrefix k UnknownKeyPrefix) rc (cAbuseTTL c) s
      else if HasPrefix k UnknownIPPrefix then
        co_UpsertAbuseIP ops (TrimPrefix k UnknownIPPrefix) rc (cAbuseTTL c) s
      else (Some (ErrMsg (''unknown counter key prefix: '' @ k)), s))"

text \<open>\<^verbatim>\<open>DeleteIfInactive\<close> on the cleanup's state, with the number of counters deleted.\<close>

definition drop_unknown :: "go_time \<Rightarrow> string \<Rightarrow> 's cl_state \<Rightarrow> (go_panic + nat) \<times> 's cl_state" where
  "drop_unknown now k st =
     (case UnknownMap_DeleteIfInactive (cl_unknown st) k now of
        Inl p \<Rightarrow> (Inl p, st)
      | Inr (m, gone) \<Rightarrow> (Inr (if gone then 1 else 0), st\<lparr>cl_unknown := m\<rparr>))"

text \<open>The loop body of \<^verbatim>\<open>runUnknown\<close>: how many counters it deleted and transferred.\<close>

definition unknown_entry ::
  "'s cleanup_ops \<Rightarrow> cleanup \<Rightarrow> 's interference \<Rightarrow> go_time \<Rightarrow> bool \<Rightarrow> string \<times> unknown_counter
     \<Rightarrow> 's cl_state \<Rightarrow> (go_panic + nat \<times> nat) \<times> 's cl_state" where
  "unknown_entry ops c env now redisUp snap st =
     (let k = fst snap; shouldTransfer = (cTransferThreshold c \<le>s uAbuseHits (snd snap) \<and> redisUp) in
      if shouldTransfer then
        (let st1 = env (PointGet k) st in
         case UnknownMap_Get (cl_unknown st1) k of
           None \<Rightarrow> (Inr (0, 0), st1)
         | Some live \<Rightarrow>
             (let st2 = env (PointUpsert k) st1;
                  (err, s') = transfer ops c k live (cl_store st2);
                  st3 = env (PointUnknownDrop k) (st2\<lparr>cl_store := s'\<rparr>)
              in case err of
                   Some e \<Rightarrow>
                     (case drop_unknown now k (cl_logs (UpsertFailed k e) (cl_count inc_redis_errors st3)) of
                        (Inl p, st4) \<Rightarrow> (Inl p, st4)
                      | (Inr d, st4) \<Rightarrow> (Inr (d, 0), st4))
                 | None \<Rightarrow>
                     (case drop_unknown now k st3 of
                        (Inl p, st4) \<Rightarrow> (Inl p, st4)
                      | (Inr d, st4) \<Rightarrow> (Inr (d, 1), st4))))
      else
        (case drop_unknown now k (env (PointUnknownDrop k) st) of
           (Inl p, st1) \<Rightarrow> (Inl p, st1)
         | (Inr d, st1) \<Rightarrow> (Inr (d, 0), st1)))"

fun unknown_entries ::
  "'s cleanup_ops \<Rightarrow> cleanup \<Rightarrow> 's interference \<Rightarrow> go_time \<Rightarrow> bool \<Rightarrow> (string \<times> unknown_counter) list
     \<Rightarrow> nat \<times> nat \<Rightarrow> 's cl_state \<Rightarrow> (go_panic + nat \<times> nat) \<times> 's cl_state" where
  "unknown_entries ops c env now redisUp [] acc st = (Inr acc, st)"
| "unknown_entries ops c env now redisUp (snap # snaps) acc st =
     (case unknown_entry ops c env now redisUp snap st of
        (Inl p, st1) \<Rightarrow> (Inl p, st1)
      | (Inr (d, t), st1) \<Rightarrow>
          unknown_entries ops c env now redisUp snaps (fst acc + d, snd acc + t) st1)"

definition runUnknown ::
  "'s cleanup_ops \<Rightarrow> cleanup \<Rightarrow> 's interference
     \<Rightarrow> ((string \<times> unknown_counter) list \<Rightarrow> (string \<times> unknown_counter) list)
     \<Rightarrow> go_time \<Rightarrow> 's cl_state \<Rightarrow> (go_panic + nat \<times> nat) \<times> 's cl_state" where
  "runUnknown ops c env order now st =
     (let st0 = env PointHealth st;
          redisUp = co_IsHealthy ops (cl_store st0);
          st1 = env PointUnknownSnapshot st0
      in unknown_entries ops c env now redisUp (UnknownMap_Snapshot order (cl_unknown st1)) (0, 0) st1)"

section \<open>One cycle\<close>

text \<open>What differs from cycle to cycle: the interference, the orders of the snapshots, and the clock
  at the start and where the duration is taken.\<close>

record 's cycle =
  cy_env :: "'s interference"
  cy_knownOrder :: "(string \<times> known_counter) list \<Rightarrow> (string \<times> known_counter) list"
  cy_unknownOrder :: "(string \<times> unknown_counter) list \<Rightarrow> (string \<times> unknown_counter) list"
  cy_start :: go_time
  cy_end :: go_time

definition inc_cleanup_runs :: "metrics \<Rightarrow> metrics" where
  "inc_cleanup_runs m = m\<lparr>CleanupRunsTotal := Suc (CleanupRunsTotal m)\<rparr>"

definition add_cleanup_totals :: "nat \<Rightarrow> nat \<Rightarrow> metrics \<Rightarrow> metrics" where
  "add_cleanup_totals deleted transferred m =
     m\<lparr>CleanupDeletedTotal := CleanupDeletedTotal m + deleted,
       CleanupTransferredTotal := CleanupTransferredTotal m + transferred\<rparr>"

definition set_last_duration :: "duration \<Rightarrow> metrics \<Rightarrow> metrics" where
  "set_last_duration dur m = m\<lparr>CleanupLastDuration := dur\<rparr>"

definition set_known_active :: "int64 \<Rightarrow> metrics \<Rightarrow> metrics" where
  "set_known_active n m = m\<lparr>CountersKnownActive := n\<rparr>"

definition set_unknown_active :: "int64 \<Rightarrow> metrics \<Rightarrow> metrics" where
  "set_unknown_active n m = m\<lparr>CountersUnknownActive := n\<rparr>"

definition set_memory_bytes :: "int64 \<Rightarrow> metrics \<Rightarrow> metrics" where
  "set_memory_bytes n m = m\<lparr>MemoryBytes := n\<rparr>"

definition set_redis_gauges :: "int64 \<times> int64 \<times> int64 \<Rightarrow> metrics \<Rightarrow> metrics" where
  "set_redis_gauges sizes m =
     (case sizes of (db1, db2, db3) \<Rightarrow> m\<lparr>RedisDB1Keys := db1, RedisDB2Keys := db2, RedisDB3Keys := db3\<rparr>)"

definition cleanup_Run ::
  "'s cleanup_ops \<Rightarrow> cleanup \<Rightarrow> 's cycle \<Rightarrow> 's cl_state \<Rightarrow> go_panic option \<times> 's cl_state" where
  "cleanup_Run ops c cy st =
     (let start = cy_start cy; st0 = cl_count inc_cleanup_runs st in
      case runKnown ops (cy_env cy) (cy_knownOrder cy) start st0 of
        (Inl p, st1) \<Rightarrow> (Some p, st1)
      | (Inr (deleted, transferred), st1) \<Rightarrow>
          (case runUnknown ops c (cy_env cy) (cy_unknownOrder cy) start st1 of
             (Inl p, st2) \<Rightarrow> (Some p, st2)
           | (Inr (d2, t2), st2) \<Rightarrow>
               (let deleted = deleted + d2; transferred = transferred + t2;
                    st3 = cl_count (add_cleanup_totals deleted transferred) st2;
                    dur = time_Sub (cy_end cy) start;
                    st4 = cy_env cy PointKnownLen (cl_count (set_last_duration dur) st3);
                    st5 = cy_env cy PointUnknownLen
                            (cl_count (set_known_active (KnownMap_Len (cl_known st4))) st4);
                    st6 = cy_env cy PointKnownSize
                            (cl_count (set_unknown_active (UnknownMap_Len (cl_unknown st5))) st5);
                    st7 = cy_env cy PointUnknownSize st6;
                    st8 = cy_env cy PointDBSize
                            (cl_count (set_memory_bytes
                              (KnownMap_SizeBytes (cl_known st6) + UnknownMap_SizeBytes (cl_unknown st7))) st7);
                    (ans, s') = co_DBSize ops (cl_store st8);
                    st9 = st8\<lparr>cl_store := s'\<rparr>;
                    st10 = (case ans of
                              Inr sizes \<Rightarrow> cl_count (set_redis_gauges sizes) st9
                            | Inl err \<Rightarrow> cl_count inc_redis_errors st9)
                in (None, cl_logs (CleanupFinished deleted transferred dur) st10))))"

section \<open>The loop\<close>

text \<open>What the \<^verbatim>\<open>select\<close> of \<^verbatim>\<open>Loop\<close> picks: a tick, on which a cycle runs with its panics recovered, or
  the cancelled context, which ends the loop.\<close>

datatype 's loop_event = Tick "'s cycle" | Done

definition loop_tick :: "'s cleanup_ops \<Rightarrow> cleanup \<Rightarrow> 's cycle \<Rightarrow> 's cl_state \<Rightarrow> 's cl_state" where
  "loop_tick ops c cy st =
     (case cleanup_Run ops c cy st of
        (Some p, st1) \<Rightarrow> cl_logs (CleanupPanic p) st1
      | (None, st1) \<Rightarrow> st1)"

fun cleanup_Loop :: "'s cleanup_ops \<Rightarrow> cleanup \<Rightarrow> 's loop_event list \<Rightarrow> 's cl_state \<Rightarrow> 's cl_state" where
  "cleanup_Loop ops c [] st = st"
| "cleanup_Loop ops c (Done # evs) st = st"
| "cleanup_Loop ops c (Tick cy # evs) st = cleanup_Loop ops c evs (loop_tick ops c cy st)"

end
