(* ===== verification/Cleanup_Correct.thy ===== *)
theory Cleanup_Correct
  imports Cleanup Store_Correct
begin

text \<open>
  Correctness of the cleanup: without interference a cycle is a garbage collection that drops
  exactly the idle counters and transfers exactly the abusive ones, whatever Redis answers; with
  interference no recorded request is lost between a transfer and the drop after it. The loop
  survives panics. The store of \<open>Store\<close> is the cleanup's store through \<open>store_ops\<close>.
\<close>

section \<open>Dropping, by key\<close>

definition known_idle :: "known_map \<Rightarrow> go_time \<Rightarrow> string \<Rightarrow> bool" where
  "known_idle m now k \<longleftrightarrow>
     (case KnownMap_Get m k of None \<Rightarrow> False | Some c \<Rightarrow> window_idle (kWindowS m) now (known_view c))"

definition unknown_idle :: "unknown_map \<Rightarrow> go_time \<Rightarrow> string \<Rightarrow> bool" where
  "unknown_idle m now k \<longleftrightarrow>
     (case UnknownMap_Get m k of None \<Rightarrow> False | Some c \<Rightarrow> window_idle (uWindowS m) now (unknown_view c))"

lemma known_drop_eq:
  "kWindowS m \<noteq> 0 \<Longrightarrow> KnownMap_DeleteIfInactive m k now =
     Inr (if known_idle m now k then (KnownMap_Delete m k, True) else (m, False))"
  by (auto simp: KnownMap_DeleteIfInactive_def known_idle_def KnownMap_Get_def KnownMap_Delete_def
      isInactive_window window_idle_def split: option.split)

lemma unknown_drop_eq:
  "uWindowS m \<noteq> 0 \<Longrightarrow> UnknownMap_DeleteIfInactive m k now =
     Inr (if unknown_idle m now k then (UnknownMap_Delete m k, True) else (m, False))"
  by (auto simp: UnknownMap_DeleteIfInactive_def unknown_idle_def UnknownMap_Get_def UnknownMap_Delete_def
      isInactive_window window_idle_def split: option.split)

lemma delete_simps [simp]:
  "KnownMap_Get (KnownMap_Delete m k) k' = (if k' = k then None else KnownMap_Get m k')"
  "UnknownMap_Get (UnknownMap_Delete u k) k' = (if k' = k then None else UnknownMap_Get u k')"
  "kWindowS (KnownMap_Delete m k) = kWindowS m" "uWindowS (UnknownMap_Delete u k) = uWindowS u"
  by (simp_all add: counter_defs)

lemma idle_delete_other:
  "k' \<noteq> k \<Longrightarrow> known_idle (KnownMap_Delete m k) now k' = known_idle m now k'"
  "k' \<noteq> k \<Longrightarrow> unknown_idle (UnknownMap_Delete u k) now k' = unknown_idle u now k'"
  by (simp_all add: known_idle_def unknown_idle_def split: option.split)

lemmas gauge_defs = set_last_duration_def set_known_active_def set_unknown_active_def set_memory_bytes_def

lemma cl_simps [simp]:
  "cl_known (cl_logs e st) = cl_known st" "cl_unknown (cl_logs e st) = cl_unknown st"
  "cl_store (cl_logs e st) = cl_store st" "cl_metrics (cl_logs e st) = cl_metrics st"
  "cl_known (cl_count f st) = cl_known st" "cl_unknown (cl_count f st) = cl_unknown st"
  "cl_store (cl_count f st) = cl_store st" "cl_metrics (cl_count f st) = f (cl_metrics st)"
  "cl_log (cl_count f st) = cl_log st"
  by (simp_all add: cl_logs_def cl_count_def)

lemma undisturbed [simp]: "undisturbed p st = st"
  by (simp add: undisturbed_def)

section \<open>A cycle over the unknown counters\<close>

lemma drop_unknown_eq:
  "uWindowS (cl_unknown st) \<noteq> 0 \<Longrightarrow> drop_unknown now k st =
     (if unknown_idle (cl_unknown st) now k
      then (Inr 1, st\<lparr>cl_unknown := UnknownMap_Delete (cl_unknown st) k\<rparr>) else (Inr 0, st))"
  by (simp add: drop_unknown_def unknown_drop_eq)

text \<open>Which snapshot entries are transferred, and the store after the transfers alone.\<close>

definition abusive :: "cleanup \<Rightarrow> bool \<Rightarrow> string \<times> unknown_counter \<Rightarrow> bool" where
  "abusive c redisUp snap \<longleftrightarrow> cTransferThreshold c \<le>s uAbuseHits (snd snap) \<and> redisUp"

fun transfer_all ::
  "'s cleanup_ops \<Rightarrow> cleanup \<Rightarrow> (string \<times> unknown_counter) list \<Rightarrow> 's \<Rightarrow> nat \<times> 's" where
  "transfer_all ops c [] s = (0, s)"
| "transfer_all ops c ((k, u) # snaps) s =
     (let (err, s1) = transfer ops c k u s; (n, s2) = transfer_all ops c snaps s1
      in ((if err = None then 1 else 0) + n, s2))"

lemma unknown_entry_undisturbed:
  fixes st :: "'s cl_state" and ops :: "'s cleanup_ops" and c :: cleanup and now :: go_time and redisUp :: bool
  assumes "uWindowS (cl_unknown st) \<noteq> 0" and "UnknownMap_Get (cl_unknown st) (fst snap) = Some (snd snap)"
  defines "gone \<equiv> unknown_idle (cl_unknown st) now (fst snap)"
  defines "sent \<equiv> transfer_all ops c (if abusive c redisUp snap then [snap] else []) (cl_store st)"
  shows "\<exists>st'. unknown_entry ops c undisturbed now redisUp snap st = (Inr (if gone then 1 else 0, fst sent), st')
    \<and> cl_unknown st' = (if gone then UnknownMap_Delete (cl_unknown st) (fst snap) else cl_unknown st)
    \<and> cl_store st' = snd sent \<and> cl_known st' = cl_known st"
proof (cases snap)
  case (Pair k u)
  show ?thesis
  proof (cases "transfer ops c k u (cl_store st)")
    case (Pair err s')
    with \<open>snap = (k, u)\<close> assms(1,2) show ?thesis
      by (cases err) (auto simp: unknown_entry_def Let_def drop_unknown_eq gone_def sent_def abusive_def)
  qed
qed

lemma unknown_entries_undisturbed:
  fixes st :: "'s cl_state" and ops :: "'s cleanup_ops" and c :: cleanup and now :: go_time and redisUp :: bool
  assumes "uWindowS (cl_unknown st) \<noteq> 0" and "distinct (map fst snaps)"
    and "\<forall>(k, u)\<in>set snaps. UnknownMap_Get (cl_unknown st) k = Some u"
  defines "sent \<equiv> transfer_all ops c (filter (abusive c redisUp) snaps) (cl_store st)"
  shows "\<exists>st'. unknown_entries ops c undisturbed now redisUp snaps acc st =
      (Inr (fst acc + length (filter (unknown_idle (cl_unknown st) now) (map fst snaps)), snd acc + fst sent), st')
    \<and> UnknownMap_Get (cl_unknown st') =
        (\<lambda>k. if k \<in> fst ` set snaps \<and> unknown_idle (cl_unknown st) now k then None
             else UnknownMap_Get (cl_unknown st) k)
    \<and> cl_store st' = snd sent \<and> cl_known st' = cl_known st
    \<and> uWindowS (cl_unknown st') = uWindowS (cl_unknown st)"
  using assms(1-3) unfolding sent_def
proof (induction snaps arbitrary: acc st)
  case (Cons snap snaps)
  obtain k u where snap: "snap = (k, u)" by (cases snap)
  let ?gone = "unknown_idle (cl_unknown st) now k"
  let ?sent = "transfer_all ops c (if abusive c redisUp snap then [snap] else []) (cl_store st)"
  obtain st1 where st1: "unknown_entry ops c undisturbed now redisUp snap st = (Inr (if ?gone then 1 else 0, fst ?sent), st1)"
    "cl_unknown st1 = (if ?gone then UnknownMap_Delete (cl_unknown st) k else cl_unknown st)"
    "cl_store st1 = snd ?sent" "cl_known st1 = cl_known st"
    using unknown_entry_undisturbed[OF Cons.prems(1), where snap = snap and ops = ops and c = c
        and redisUp = redisUp and now = now] Cons.prems(3) snap by auto
  have other: "k \<notin> fst ` set snaps" using Cons.prems(2) snap by simp
  then have ne: "k' \<noteq> k" if "k' \<in> fst ` set snaps" for k' using that by blast
  have ws: "uWindowS (cl_unknown st1) \<noteq> 0" using Cons.prems(1) st1(2) by simp
  have dist: "distinct (map fst snaps)" using Cons.prems(2) by simp
  have get: "\<forall>(k, u)\<in>set snaps. UnknownMap_Get (cl_unknown st1) k = Some u"
    using Cons.prems(3) st1(2) ne by (force simp: image_iff)
  have idle: "unknown_idle (cl_unknown st1) now k' = unknown_idle (cl_unknown st) now k'"
    if "k' \<noteq> k" for k'
    using st1(2) that by (simp add: idle_delete_other)
  define acc1 where "acc1 = (fst acc + (if ?gone then 1 else 0), snd acc + fst ?sent)"
  obtain st2 where st2: "unknown_entries ops c undisturbed now redisUp snaps acc1 st1 =
      (Inr (fst acc1 + length (filter (unknown_idle (cl_unknown st1) now) (map fst snaps)),
        snd acc1 + fst (transfer_all ops c (filter (abusive c redisUp) snaps) (cl_store st1))), st2)"
    "UnknownMap_Get (cl_unknown st2) =
        (\<lambda>k. if k \<in> fst ` set snaps \<and> unknown_idle (cl_unknown st1) now k then None
             else UnknownMap_Get (cl_unknown st1) k)"
    "cl_store st2 = snd (transfer_all ops c (filter (abusive c redisUp) snaps) (cl_store st1))"
    "cl_known st2 = cl_known st1" "uWindowS (cl_unknown st2) = uWindowS (cl_unknown st1)"
    using Cons.IH[OF ws dist get, of acc1] by blast
  have filt: "filter (unknown_idle (cl_unknown st1) now) (map fst snaps) =
      filter (unknown_idle (cl_unknown st) now) (map fst snaps)"
    using idle ne by (intro filter_cong) auto
  have get2: "UnknownMap_Get (cl_unknown st2) =
      (\<lambda>k'. if k' \<in> fst ` set (snap # snaps) \<and> unknown_idle (cl_unknown st) now k' then None
             else UnknownMap_Get (cl_unknown st) k')"
    unfolding st2(2) using st1(2) idle ne snap by (auto simp: fun_eq_iff)
  have sent: "transfer_all ops c (filter (abusive c redisUp) (snap # snaps)) (cl_store st) =
      (fst ?sent + fst (transfer_all ops c (filter (abusive c redisUp) snaps) (cl_store st1)),
       snd (transfer_all ops c (filter (abusive c redisUp) snaps) (cl_store st1)))"
    using st1(3) snap by (auto simp: Let_def case_prod_beta)
  have run: "unknown_entries ops c undisturbed now redisUp (snap # snaps) acc st =
      unknown_entries ops c undisturbed now redisUp snaps acc1 st1"
    by (simp only: unknown_entries.simps st1(1) prod.case sum.case acc1_def)
  show ?case
    unfolding run sent st2(1) filt
    using st1(2,4) st2(3-5) get2 snap by (intro exI[of _ st2] conjI) (auto simp: acc1_def)
qed (auto simp: fun_eq_iff)

lemma snapshot_entries:
  assumes "distinct (keys_of m)" and "iteration_order order"
  shows "distinct (map fst (order m))" and "(k, v) \<in> set (order m) \<longleftrightarrow> map_of m k = Some v"
    and "mset (order m) = mset m" and "fst ` set (order m) = dom (map_of m)"
proof -
  show ms: "mset (order m) = mset m" using assms(2) by (simp add: iteration_order_def)
  then have "mset (map fst (order m)) = mset (map fst m)" by simp
  then show "distinct (map fst (order m))" using assms(1) by (metis mset_eq_imp_distinct_iff)
  have set: "set (order m) = set m" using ms by (rule mset_eq_setD)
  then show "(k, v) \<in> set (order m) \<longleftrightarrow> map_of m k = Some v" using assms(1) by simp
  show "fst ` set (order m) = dom (map_of m)" using set by (simp add: dom_map_of_conv_image_fst)
qed

lemma unknown_cycle:
  assumes "wf_unknown (cl_unknown st)" and "iteration_order order"
  shows "\<exists>st' deleted sent. runUnknown ops c undisturbed order now st = (Inr (deleted, sent), st')
    \<and> UnknownMap_Get (cl_unknown st') =
        (\<lambda>k. if unknown_idle (cl_unknown st) now k then None else UnknownMap_Get (cl_unknown st) k)
    \<and> deleted = length (filter (unknown_idle (cl_unknown st) now) (map fst (uCounters (cl_unknown st))))
    \<and> (sent, cl_store st') =
        (if co_IsHealthy ops (cl_store st)
         then transfer_all ops c (filter (\<lambda>(k, u). cTransferThreshold c \<le>s uAbuseHits u)
                (order (uCounters (cl_unknown st)))) (cl_store st)
         else (0, cl_store st))
    \<and> cl_known st' = cl_known st"
proof -
  let ?m = "uCounters (cl_unknown st)"
  let ?up = "co_IsHealthy ops (cl_store st)"
  have nz: "uWindowS (cl_unknown st) \<noteq> 0" and dist: "distinct (keys_of ?m)"
    using assms(1) by (auto simp: wf_unknown_def)
  note snap = snapshot_entries[OF dist assms(2)]
  have get: "\<forall>(k, u)\<in>set (order ?m). UnknownMap_Get (cl_unknown st) k = Some u"
    using snap(2) by (auto simp: UnknownMap_Get_def)
  obtain st' where st': "unknown_entries ops c undisturbed now ?up (order ?m) (0, 0) st =
      (Inr (length (filter (unknown_idle (cl_unknown st) now) (map fst (order ?m))),
        fst (transfer_all ops c (filter (abusive c ?up) (order ?m)) (cl_store st))), st')"
    "UnknownMap_Get (cl_unknown st') =
        (\<lambda>k. if k \<in> fst ` set (order ?m) \<and> unknown_idle (cl_unknown st) now k then None
             else UnknownMap_Get (cl_unknown st) k)"
    "cl_store st' = snd (transfer_all ops c (filter (abusive c ?up) (order ?m)) (cl_store st))"
    "cl_known st' = cl_known st"
    using unknown_entries_undisturbed[OF nz snap(1) get, where acc = "(0, 0)" and ops = ops and c = c
        and now = now and redisUp = ?up] by auto
  have idle: "k \<in> fst ` set (order ?m)" if "unknown_idle (cl_unknown st) now k" for k
    using that snap(4) by (auto simp: unknown_idle_def UnknownMap_Get_def split: option.splits)
  have "mset (map fst (order ?m)) = mset (map fst ?m)" using snap(3) by simp
  then have len: "length (filter P (map fst (order ?m))) = length (filter P (map fst ?m))" for P
    by (metis mset_filter size_mset)
  have filt: "filter (abusive c True) xs = filter (\<lambda>(k, u). cTransferThreshold c \<le>s uAbuseHits u) xs"
    "filter (abusive c False) xs = []" for xs
    by (auto simp: abusive_def intro: filter_cong)
  let ?sent = "transfer_all ops c (filter (abusive c ?up) (order ?m)) (cl_store st)"
  show ?thesis
  proof (intro exI conjI)
    show "runUnknown ops c undisturbed order now st =
        (Inr (length (filter (unknown_idle (cl_unknown st) now) (map fst (order ?m))), fst ?sent), st')"
      using st'(1) by (simp add: runUnknown_def UnknownMap_Snapshot_def)
    show "UnknownMap_Get (cl_unknown st') =
        (\<lambda>k. if unknown_idle (cl_unknown st) now k then None else UnknownMap_Get (cl_unknown st) k)"
      unfolding st'(2) using idle by (auto simp: fun_eq_iff)
    show "(fst ?sent, cl_store st') =
        (if ?up then transfer_all ops c (filter (\<lambda>(k, u). cTransferThreshold c \<le>s uAbuseHits u) (order ?m)) (cl_store st)
         else (0, cl_store st))"
      using filt by (cases ?up) (simp_all add: st'(3))
  qed (rule len st'(4))+
qed

text \<open>C10: Without interference, a cycle over the unknown counters is exactly garbage collection. It
  drops the idle counters and no others, whatever Redis answers (so memory stays bounded in an
  outage too), and reports their number; it transfers the counters whose abuse hits reach the
  threshold, each once, in snapshot order, with nothing else done to the store; if the store was
  unhealthy to begin with, it is not touched at all. The known counters are untouched.\<close>

theorem unknown_cycle_collects:
  assumes "wf_unknown (cl_unknown st)" and "iteration_order order"
  shows "\<exists>st' deleted sent. runUnknown ops c undisturbed order now st = (Inr (deleted, sent), st')
    \<and> UnknownMap_Get (cl_unknown st') =
        (\<lambda>k. if unknown_idle (cl_unknown st) now k then None else UnknownMap_Get (cl_unknown st) k)
    \<and> deleted = length (filter (unknown_idle (cl_unknown st) now) (map fst (uCounters (cl_unknown st))))
    \<and> (sent, cl_store st') =
        (if co_IsHealthy ops (cl_store st)
         then transfer_all ops c (filter (\<lambda>(k, u). cTransferThreshold c \<le>s uAbuseHits u)
                (order (uCounters (cl_unknown st)))) (cl_store st)
         else (0, cl_store st))
    \<and> cl_known st' = cl_known st"
  using unknown_cycle[OF assms(1,2)] by blast

text \<open>The store of the program as the cleanup's store.\<close>

definition store_ops :: "'r clients \<Rightarrow> 'r store cleanup_ops" where
  "store_ops c =
     \<lparr>co_LimitExists = LimitExists c, co_UpsertAbuseKey = UpsertAbuseKey c,
      co_UpsertAbuseIP = UpsertAbuseIP c, co_DBSize = DBSize c, co_IsHealthy = IsHealthy\<rparr>"

definition example_counter :: "int64 \<Rightarrow> int64 \<Rightarrow> unknown_counter" where
  "example_counter t hits =
     \<lparr>uFirstRequest = unix_time 120, uLastRequest = unix_time t, uTotal = 9, uWindowCount = 9,
      uSlot = go_quot t 60, uBurstHits = 1, uAbuseHits = hits\<rparr>"

definition cleanup_example :: "mem_redis \<Rightarrow> mem_redis store cl_state" where
  "cleanup_example r =
     \<lparr>cl_known = NewKnownMap 60,
      cl_unknown = \<lparr>uCounters = [(''ip:1.2.3.4'', example_counter 130 3), (''key:k'', example_counter 395 5),
                                 (''ip:9.9.9.9'', example_counter 130 0)], uWindowS = 60\<rparr>,
      cl_metrics = zero_metrics, cl_store = mem_store r, cl_log = []\<rparr>"

lemma iteration_order_rev [simp]: "iteration_order rev"
  by (simp add: iteration_order_def)

lemma cleanup_example_wf [simp]: "wf_unknown (cl_unknown (cleanup_example r))"
  by (simp add: cleanup_example_def wf_unknown_def)

theorem unknown_cycle_collects_witness:
  "\<exists>st'. runUnknown (store_ops mem_clients) (cleanup_New 3 60) undisturbed rev (unix_time 400)
      (cleanup_example example_db) = (Inr (2, 2), st')
    \<and> keys_of (m_db3 (st_redis (cl_store st'))) = [''rate:abuse:ip:1.2.3.4'']
    \<and> UnknownMap_Get (cl_unknown st') ''key:k'' = Some (example_counter 395 5)"
proof -
  let ?st = "cleanup_example example_db"
  have up: "co_IsHealthy (store_ops mem_clients) (cl_store ?st)"
    and del: "length (filter (unknown_idle (cl_unknown ?st) (unix_time 400)) (map fst (uCounters (cl_unknown ?st)))) = 2"
    and sent: "fst (transfer_all (store_ops mem_clients) (cleanup_New 3 60)
        (filter (\<lambda>(k, u). cTransferThreshold (cleanup_New 3 60) \<le>s uAbuseHits u) (rev (uCounters (cl_unknown ?st))))
        (cl_store ?st)) = 2"
    and db: "keys_of (m_db3 (st_redis (snd (transfer_all (store_ops mem_clients) (cleanup_New 3 60)
        (filter (\<lambda>(k, u). cTransferThreshold (cleanup_New 3 60) \<le>s uAbuseHits u) (rev (uCounters (cl_unknown ?st))))
        (cl_store ?st))))) = [''rate:abuse:ip:1.2.3.4'']"
    and live: "\<not> unknown_idle (cl_unknown ?st) (unix_time 400) ''key:k''"
    and get: "UnknownMap_Get (cl_unknown ?st) ''key:k'' = Some (example_counter 395 5)"
    by code_simp+
  from unknown_cycle_collects[OF cleanup_example_wf[of example_db] iteration_order_rev, where ops = "store_ops mem_clients"
      and c = "cleanup_New 3 60" and now = "unix_time 400"]
  obtain st' deleted n where r: "runUnknown (store_ops mem_clients) (cleanup_New 3 60) undisturbed rev (unix_time 400) ?st
      = (Inr (deleted, n), st')"
    "UnknownMap_Get (cl_unknown st') = (\<lambda>k. if unknown_idle (cl_unknown ?st) (unix_time 400) k then None
       else UnknownMap_Get (cl_unknown ?st) k)"
    "deleted = 2" "(n, cl_store st') = transfer_all (store_ops mem_clients) (cleanup_New 3 60)
        (filter (\<lambda>(k, u). cTransferThreshold (cleanup_New 3 60) \<le>s uAbuseHits u) (rev (uCounters (cl_unknown ?st))))
        (cl_store ?st)"
    unfolding del if_P[OF up] by blast
  from r(4) sent db have "n = 2" "keys_of (m_db3 (st_redis (cl_store st'))) = [''rate:abuse:ip:1.2.3.4'']"
    by (metis fst_conv snd_conv)+
  with r live get show ?thesis by auto
qed

section \<open>A cycle over the known counters\<close>

text \<open>The answers \<^verbatim>\<open>LimitExists\<close> gives for the keys of a snapshot, one after the other.\<close>

fun exists_answers ::
  "'s cleanup_ops \<Rightarrow> string list \<Rightarrow> 's \<Rightarrow> (string \<times> (go_err + bool)) list \<times> 's" where
  "exists_answers ops [] s = ([], s)"
| "exists_answers ops (k # ks) s =
     (let (a, s1) = co_LimitExists ops k s; (as, s2) = exists_answers ops ks s1 in ((k, a) # as, s2))"

text \<open>What becomes of a known counter, given the answer for its key.\<close>

definition known_fate :: "known_map \<Rightarrow> go_time \<Rightarrow> string \<Rightarrow> go_err + bool \<Rightarrow> bool" where
  "known_fate m now k a = (case a of Inl e \<Rightarrow> True | Inr found \<Rightarrow> found \<and> \<not> known_idle m now k)"

lemma keys_exists_answers [simp]: "map fst (fst (exists_answers ops ks s)) = ks"
  by (induction ks arbitrary: s) (auto simp: Let_def case_prod_beta)

lemma exists_answers_None: "map_of (fst (exists_answers ops ks s)) k = None \<longleftrightarrow> k \<notin> set ks"
  by (metis keys_exists_answers map_of_eq_None_iff set_map)

lemma known_entry_undisturbed:
  assumes "kWindowS (cl_known st) \<noteq> 0"
  shows "\<exists>st'. known_entry ops undisturbed now k st =
      (Inr (if known_fate (cl_known st) now k (fst (co_LimitExists ops k (cl_store st))) then 0 else 1), st')
    \<and> cl_known st' = (if known_fate (cl_known st) now k (fst (co_LimitExists ops k (cl_store st)))
                       then cl_known st else KnownMap_Delete (cl_known st) k)
    \<and> cl_store st' = snd (co_LimitExists ops k (cl_store st)) \<and> cl_unknown st' = cl_unknown st"
  using assms
  by (cases "co_LimitExists ops k (cl_store st)")
    (auto simp: known_entry_def Let_def known_drop_eq known_fate_def split: sum.splits)

lemma known_entries_undisturbed:
  fixes st :: "'s cl_state" and ops :: "'s cleanup_ops" and now :: go_time
  assumes "kWindowS (cl_known st) \<noteq> 0" and "distinct (map fst snaps)"
  defines "answers \<equiv> exists_answers ops (map fst snaps) (cl_store st)"
  shows "\<exists>st'. known_entries ops undisturbed now snaps deleted st =
      (Inr (deleted + length (filter (\<lambda>(k, a). \<not> known_fate (cl_known st) now k a) (fst answers))), st')
    \<and> KnownMap_Get (cl_known st') =
        (\<lambda>k. case map_of (fst answers) k of
               Some a \<Rightarrow> if known_fate (cl_known st) now k a then KnownMap_Get (cl_known st) k else None
             | None \<Rightarrow> KnownMap_Get (cl_known st) k)
    \<and> cl_store st' = snd answers \<and> cl_unknown st' = cl_unknown st
    \<and> kWindowS (cl_known st') = kWindowS (cl_known st)"
  using assms(1,2) unfolding answers_def
proof (induction snaps arbitrary: deleted st)
  case (Cons snap snaps)
  obtain k v where snap: "snap = (k, v)" by (cases snap)
  let ?a = "fst (co_LimitExists ops k (cl_store st))"
  let ?keep = "known_fate (cl_known st) now k ?a"
  obtain st1 where st1: "known_entry ops undisturbed now k st = (Inr (if ?keep then 0 else 1), st1)"
    "cl_known st1 = (if ?keep then cl_known st else KnownMap_Delete (cl_known st) k)"
    "cl_store st1 = snd (co_LimitExists ops k (cl_store st))" "cl_unknown st1 = cl_unknown st"
    using known_entry_undisturbed[OF Cons.prems(1), of ops now k] by blast
  have ws: "kWindowS (cl_known st1) \<noteq> 0" and dist: "distinct (map fst snaps)"
    using Cons.prems snap st1(2) by auto
  have fate: "known_fate (cl_known st1) now k' a = known_fate (cl_known st) now k' a" if "k' \<noteq> k" for k' a
    using st1(2) that by (simp add: known_fate_def idle_delete_other split: sum.split)
  let ?rest = "exists_answers ops (map fst snaps) (cl_store st1)"
  have keys: "k' \<noteq> k" if "(k', a) \<in> set (fst ?rest)" for k' a
  proof -
    have "k' \<in> fst ` set (fst ?rest)" using that by force
    then have "k' \<in> set (map fst (fst ?rest))" by (simp only: set_map)
    then show ?thesis using Cons.prems(2) snap by auto
  qed
  obtain st2 where st2: "known_entries ops undisturbed now snaps (deleted + (if ?keep then 0 else 1)) st1 =
      (Inr (deleted + (if ?keep then 0 else 1)
            + length (filter (\<lambda>(k, a). \<not> known_fate (cl_known st1) now k a) (fst ?rest))), st2)"
    "KnownMap_Get (cl_known st2) =
        (\<lambda>k. case map_of (fst ?rest) k of
               Some a \<Rightarrow> if known_fate (cl_known st1) now k a then KnownMap_Get (cl_known st1) k else None
             | None \<Rightarrow> KnownMap_Get (cl_known st1) k)"
    "cl_store st2 = snd ?rest" "cl_unknown st2 = cl_unknown st1"
    "kWindowS (cl_known st2) = kWindowS (cl_known st1)"
    using Cons.IH[OF ws dist] by blast
  have filt: "filter (\<lambda>(k, a). \<not> known_fate (cl_known st1) now k a) (fst ?rest) =
      filter (\<lambda>(k, a). \<not> known_fate (cl_known st) now k a) (fst ?rest)"
    using fate keys by (intro filter_cong) auto
  have ans: "exists_answers ops (map fst (snap # snaps)) (cl_store st) = ((k, ?a) # fst ?rest, snd ?rest)"
    using snap st1(3) by (simp add: Let_def case_prod_beta)
  have absent: "map_of (fst ?rest) k = None"
    using keys[of k] by (force simp: map_of_eq_None_iff)
  have get2: "KnownMap_Get (cl_known st2) =
        (\<lambda>k'. case map_of ((k, ?a) # fst ?rest) k' of
               Some a \<Rightarrow> if known_fate (cl_known st) now k' a then KnownMap_Get (cl_known st) k' else None
             | None \<Rightarrow> KnownMap_Get (cl_known st) k')"
    unfolding st2(2) using st1(2) absent fate by (auto simp: fun_eq_iff split: option.split)
  have run: "known_entries ops undisturbed now (snap # snaps) deleted st =
      known_entries ops undisturbed now snaps (deleted + (if ?keep then 0 else 1)) st1"
    by (simp only: snap known_entries.simps st1(1) prod.case sum.case)
  show ?case
    unfolding run ans st2(1) filt fst_conv snd_conv
    using st1(2,4) st2(3-5) get2 by (intro exI[of _ st2] conjI) auto
qed simp

lemma known_cycle:
  fixes st :: "'s cl_state" and ops :: "'s cleanup_ops"
    and order :: "(string \<times> known_counter) list \<Rightarrow> (string \<times> known_counter) list"
  assumes "wf_known (cl_known st)" and "iteration_order order"
  defines "answers \<equiv> exists_answers ops (map fst (order (kCounters (cl_known st)))) (cl_store st)"
  shows "\<exists>st' deleted. runKnown ops undisturbed order now st = (Inr (deleted, 0), st')
    \<and> KnownMap_Get (cl_known st') =
        (\<lambda>k. case map_of (fst answers) k of
               Some (Inl e) \<Rightarrow> KnownMap_Get (cl_known st) k
             | Some (Inr found) \<Rightarrow>
                 if found \<and> \<not> known_idle (cl_known st) now k then KnownMap_Get (cl_known st) k else None
             | None \<Rightarrow> None)
    \<and> deleted = length (filter (\<lambda>(k, a). a = Inr False \<or> a = Inr True \<and> known_idle (cl_known st) now k)
                         (fst answers))
    \<and> cl_store st' = snd answers \<and> cl_unknown st' = cl_unknown st"
proof -
  let ?m = "kCounters (cl_known st)"
  have nz: "kWindowS (cl_known st) \<noteq> 0" and dist: "distinct (keys_of ?m)"
    using assms(1) by (auto simp: wf_known_def)
  note snap = snapshot_entries[OF dist assms(2)]
  obtain st' where st': "known_entries ops undisturbed now (order ?m) 0 st =
      (Inr (0 + length (filter (\<lambda>(k, a). \<not> known_fate (cl_known st) now k a) (fst answers))), st')"
    "KnownMap_Get (cl_known st') =
        (\<lambda>k. case map_of (fst answers) k of
               Some a \<Rightarrow> if known_fate (cl_known st) now k a then KnownMap_Get (cl_known st) k else None
             | None \<Rightarrow> KnownMap_Get (cl_known st) k)"
    "cl_store st' = snd answers" "cl_unknown st' = cl_unknown st"
    using known_entries_undisturbed[OF nz snap(1), of ops now 0] unfolding answers_def by blast
  have fate: "known_fate (cl_known st) now k a \<longleftrightarrow> \<not> (a = Inr False \<or> a = Inr True \<and> known_idle (cl_known st) now k)" for k a
    by (cases a) (auto simp: known_fate_def)
  have absent: "KnownMap_Get (cl_known st) k = None" if "map_of (fst answers) k = None" for k
  proof -
    have "k \<notin> set (map fst (fst answers))" using that by (simp add: map_of_eq_None_iff)
    then have "k \<notin> fst ` set (order ?m)" by (simp add: answers_def)
    then show ?thesis using snap(4) by (auto simp: KnownMap_Get_def)
  qed
  show ?thesis
  proof (intro exI conjI)
    show "runKnown ops undisturbed order now st =
        (Inr (length (filter (\<lambda>(k, a). \<not> known_fate (cl_known st) now k a) (fst answers)), 0), st')"
      using st'(1) by (simp add: runKnown_def KnownMap_Snapshot_def)
    show "KnownMap_Get (cl_known st') =
        (\<lambda>k. case map_of (fst answers) k of
               Some (Inl e) \<Rightarrow> KnownMap_Get (cl_known st) k
             | Some (Inr found) \<Rightarrow>
                 if found \<and> \<not> known_idle (cl_known st) now k then KnownMap_Get (cl_known st) k else None
             | None \<Rightarrow> None)"
      unfolding st'(2) using absent by (auto simp: fun_eq_iff known_fate_def split: option.split sum.split)
    show "length (filter (\<lambda>(k, a). \<not> known_fate (cl_known st) now k a) (fst answers)) =
      length (filter (\<lambda>(k, a). a = Inr False \<or> a = Inr True \<and> known_idle (cl_known st) now k) (fst answers))"
      by (simp only: fate not_not)
  qed (rule st'(3,4))+
qed

text \<open>C19: Without interference, a cycle over the known counters drops a counter when Redis says that
  its limit is gone, or that it exists and the counter is idle; a failed check keeps it. The
  number returned is the number dropped, nothing is transferred, each key of the snapshot is asked
  for once, and the unknown counters are untouched.\<close>

theorem known_cycle_collects:
  fixes st :: "'s cl_state" and ops :: "'s cleanup_ops"
    and order :: "(string \<times> known_counter) list \<Rightarrow> (string \<times> known_counter) list"
  assumes "wf_known (cl_known st)" and "iteration_order order"
  defines "answers \<equiv> exists_answers ops (map fst (order (kCounters (cl_known st)))) (cl_store st)"
  shows "\<exists>st' deleted. runKnown ops undisturbed order now st = (Inr (deleted, 0), st')
    \<and> KnownMap_Get (cl_known st') =
        (\<lambda>k. case map_of (fst answers) k of
               Some (Inl e) \<Rightarrow> KnownMap_Get (cl_known st) k
             | Some (Inr found) \<Rightarrow>
                 if found \<and> \<not> known_idle (cl_known st) now k then KnownMap_Get (cl_known st) k else None
             | None \<Rightarrow> None)
    \<and> deleted = length (filter (\<lambda>(k, a). a = Inr False \<or> a = Inr True \<and> known_idle (cl_known st) now k)
                         (fst answers))
    \<and> cl_store st' = snd answers \<and> cl_unknown st' = cl_unknown st"
  using known_cycle[OF assms(1,2)] unfolding answers_def by blast

definition example_known :: "int64 \<Rightarrow> known_counter" where
  "example_known t =
     \<lparr>kFirstRequest = unix_time 120, kLastRequest = unix_time t, kTotal = 9, kWindowCount = 9,
      kSlot = go_quot t 60, kBurstHits = 1, kViolationHits = 0\<rparr>"

definition known_example :: "mem_redis \<Rightarrow> mem_redis store cl_state" where
  "known_example r = (cleanup_example r)\<lparr>cl_known :=
     \<lparr>kCounters = [(''a'', example_known 130), (''b'', example_known 395), (''gone'', example_known 399)],
      kWindowS = 60\<rparr>\<rparr>"

lemma known_example_wf [simp]: "wf_known (cl_known (known_example r))"
  "wf_unknown (cl_unknown (known_example r))"
  by (simp_all add: known_example_def wf_known_def cleanup_example_def wf_unknown_def)

theorem known_cycle_collects_witness:
  "\<exists>st'. runKnown (store_ops mem_clients) undisturbed rev (unix_time 400) (known_example example_db) =
      (Inr (2, 0), st')
    \<and> KnownMap_Get (cl_known st') ''b'' = Some (example_known 395)
    \<and> KnownMap_Get (cl_known st') ''gone'' = None"
proof -
  let ?st = "known_example example_db"
  let ?ans = "fst (exists_answers (store_ops mem_clients) (map fst (rev (kCounters (cl_known ?st)))) (cl_store ?st))"
  have ans: "?ans = [(''gone'', Inr False), (''b'', Inr True), (''a'', Inr True)]"
    and idle: "known_idle (cl_known ?st) (unix_time 400) ''a''" "\<not> known_idle (cl_known ?st) (unix_time 400) ''b''"
    and get: "KnownMap_Get (cl_known ?st) ''b'' = Some (example_known 395)"
    by code_simp+
  show ?thesis
    using known_cycle_collects[OF known_example_wf(1)[of example_db] iteration_order_rev,
        where ops = "store_ops mem_clients" and now = "unix_time 400"]
    unfolding ans using idle get by auto
qed

section \<open>Outages\<close>

lemma exists_answers_fail:
  assumes "\<And>k s. D s \<Longrightarrow> \<exists>e s'. co_LimitExists ops k s = (Inl e, s') \<and> D s' \<and> P s'"
    and "ks \<noteq> []" and "D s"
  shows "(\<forall>(k, a)\<in>set (fst (exists_answers ops ks s)). \<exists>e. a = Inl e)
    \<and> P (snd (exists_answers ops ks s))"
  using assms(2,3)
proof (induction ks arbitrary: s)
  case (Cons k ks)
  obtain e s1 where a: "co_LimitExists ops k s = (Inl e, s1)" "D s1" "P s1"
    using assms(1) Cons.prems by blast
  then show ?case
    using Cons.IH[of s1] by (cases "ks = []") (auto simp: Let_def case_prod_beta)
qed simp

text \<open>C21: While Redis fails, cleanup writes nothing to it. If every existence check fails with a
  transport error (in the states \<open>D\<close> of an outage) and there is at least one known counter, the known half keeps all of them and
  leaves the store marked unhealthy, so the unknown half attempts no transfer and does not touch
  the store, and still drops the idle counters.\<close>

theorem outage_skips_transfers:
  assumes "wf_known (cl_known st)" and "wf_unknown (cl_unknown st)"
    and "iteration_order ordK" and "iteration_order ordU"
    and "D (st_redis (cl_store st))"
    and "\<forall>k r. D r \<longrightarrow> (\<exists>e r'. rc_exists (limits c) k r = (Inl (RedisErr e), r') \<and> D r')"
    and "kCounters (cl_known st) \<noteq> []"
  shows "\<exists>st1 st2 deleted. runKnown (store_ops c) undisturbed ordK now st = (Inr (0, 0), st1)
    \<and> KnownMap_Get (cl_known st1) = KnownMap_Get (cl_known st)
    \<and> runUnknown (store_ops c) cl undisturbed ordU now st1 = (Inr (deleted, 0), st2)
    \<and> cl_store st2 = cl_store st1
    \<and> UnknownMap_Get (cl_unknown st2) =
        (\<lambda>k. if unknown_idle (cl_unknown st) now k then None else UnknownMap_Get (cl_unknown st) k)"
proof -
  let ?ks = "map fst (ordK (kCounters (cl_known st)))"
  let ?ans = "exists_answers (store_ops c) ?ks (cl_store st)"
  let ?D = "\<lambda>s. D (st_redis s)"
  have fail: "\<exists>e s'. co_LimitExists (store_ops c) k s = (Inl e, s') \<and> ?D s' \<and> \<not> IsHealthy s'"
    if "?D s" for k s
  proof -
    obtain e r' where "rc_exists (limits c) (''rate:limit:'' @ k) (st_redis s) = (Inl (RedisErr e), r')" "D r'"
      using assms(6) \<open>?D s\<close> by blast
    then show ?thesis
      by (simp add: store_ops_def LimitExists_def limit_key_def on_redis_def IsHealthy_def observe_healthy)
  qed
  have "mset (ordK (kCounters (cl_known st))) = mset (kCounters (cl_known st))"
    using assms(3) by (simp add: iteration_order_def)
  with assms(7) have "?ks \<noteq> []" by auto
  with exists_answers_fail[where P = "\<lambda>s. \<not> IsHealthy s" and D = ?D, OF fail] assms(5)
  have ans: "\<forall>(k, a)\<in>set (fst ?ans). \<exists>e. a = Inl e" "\<not> IsHealthy (snd ?ans)" by blast+
  obtain st1 where st1: "runKnown (store_ops c) undisturbed ordK now st =
      (Inr (length (filter (\<lambda>(k, a). a = Inr False \<or> a = Inr True \<and> known_idle (cl_known st) now k) (fst ?ans)), 0), st1)"
    "KnownMap_Get (cl_known st1) =
        (\<lambda>k. case map_of (fst ?ans) k of
               Some (Inl e) \<Rightarrow> KnownMap_Get (cl_known st) k
             | Some (Inr found) \<Rightarrow>
                 if found \<and> \<not> known_idle (cl_known st) now k then KnownMap_Get (cl_known st) k else None
             | None \<Rightarrow> None)"
    "cl_store st1 = snd ?ans" "cl_unknown st1 = cl_unknown st"
    using known_cycle[OF assms(1,3), of "store_ops c" now] by blast
  have none: "filter (\<lambda>(k, a). a = Inr False \<or> a = Inr True \<and> known_idle (cl_known st) now k) (fst ?ans) = []"
    using ans(1) by (auto simp: filter_empty_conv)
  have keys: "KnownMap_Get (cl_known st) k = None" if "map_of (fst ?ans) k = None" for k
  proof -
    have "k \<notin> fst ` set (ordK (kCounters (cl_known st)))" using that by (simp add: exists_answers_None)
    then show ?thesis
      using snapshot_entries(4)[OF _ assms(3)] assms(1) by (auto simp: wf_known_def KnownMap_Get_def)
  qed
  have "KnownMap_Get (cl_known st1) = KnownMap_Get (cl_known st)"
    unfolding st1(2) using ans(1) keys
    by (fastforce simp: fun_eq_iff split: option.split sum.split dest: map_of_SomeD)
  moreover have down: "\<not> co_IsHealthy (store_ops c) (cl_store st1)"
    using ans(2) st1(3) by (simp add: store_ops_def)
  moreover obtain st2 deleted where "runUnknown (store_ops c) cl undisturbed ordU now st1 = (Inr (deleted, 0), st2)"
    "cl_store st2 = cl_store st1"
    "UnknownMap_Get (cl_unknown st2) =
        (\<lambda>k. if unknown_idle (cl_unknown st) now k then None else UnknownMap_Get (cl_unknown st) k)"
    using unknown_cycle[of st1 ordU "store_ops c" cl now] assms(2,4) down unfolding st1(4) by auto
  ultimately show ?thesis using st1(1) none by (metis list.size(3))
qed

theorem outage_skips_transfers_witness:
  "\<exists>st1 st2 deleted. runKnown (store_ops mem_clients) undisturbed rev (unix_time 400)
        (known_example (example_db\<lparr>m_up := False\<rparr>)) = (Inr (0, 0), st1)
    \<and> runUnknown (store_ops mem_clients) (cleanup_New 3 60) undisturbed rev (unix_time 400) st1 =
        (Inr (deleted, 0), st2)"
proof -
  let ?st = "known_example (example_db\<lparr>m_up := False\<rparr>)"
  have down: "\<not> m_up (st_redis (cl_store ?st))" and ne: "kCounters (cl_known ?st) \<noteq> []" by code_simp+
  have fail: "\<forall>k r. \<not> m_up r \<longrightarrow>
      (\<exists>e r'. rc_exists (limits mem_clients) k r = (Inl (RedisErr e), r') \<and> \<not> m_up r')"
    by (simp add: mem_client_def mem_down_def)
  show ?thesis
    using outage_skips_transfers[OF known_example_wf iteration_order_rev iteration_order_rev down fail ne]
    by blast
qed

section \<open>Interference\<close>

text \<open>The request handlers in between: at every point, some requests are recorded in the unknown map,
  at clock readings that are not two windows older than the cleanup's. Everything else may change
  arbitrarily.\<close>

definition env_records :: "int64 \<Rightarrow> go_time \<Rightarrow> 's interference \<Rightarrow> bool" where
  "env_records ws now env \<longleftrightarrow>
     (\<forall>p st. uWindowS (cl_unknown st) = ws \<longrightarrow> (\<exists>lim b am rs ds.
        record_all (\<lambda>m now k l b. UnknownMap_RecordRequest m now k l b am) lim b (cl_unknown st) rs
          = Inr (cl_unknown (env p st), ds)
        \<and> (\<forall>(t, k)\<in>set rs. \<not> 2 * ws * second_ns \<le>s time_Sub now t)))"

lemma window_run_last:
  "ts \<noteq> [] \<Longrightarrow> \<exists>w. fst (window_run thr l b ws wo ts) = Some w \<and> wLast w = last ts"
proof (induction ts arbitrary: wo)
  case (Cons t ts)
  then show ?case
    by (cases "ts = []") (auto simp: Let_def case_prod_beta window_req_def window_step_def)
qed simp

lemma unknown_view_inj: "unknown_view u = unknown_view v \<longleftrightarrow> u = v"
  by (auto simp: unknown_view_def)

text \<open>So a counter after the interference is the one before it, or one that is not idle.\<close>

lemma env_records_counter:
  assumes "env_records (uWindowS (cl_unknown st)) now env" and "uWindowS (cl_unknown st) \<noteq> 0"
  shows "uWindowS (cl_unknown (env p st)) = uWindowS (cl_unknown st)"
    and "UnknownMap_Get (cl_unknown (env p st)) k = UnknownMap_Get (cl_unknown st) k
       \<or> \<not> unknown_idle (cl_unknown (env p st)) now k"
proof -
  obtain lim b am rs ds where r: "record_all (\<lambda>m now k l b. UnknownMap_RecordRequest m now k l b am) lim b
        (cl_unknown st) rs = Inr (cl_unknown (env p st), ds)"
    "\<And>t k. (t, k) \<in> set rs \<Longrightarrow> \<not> 2 * uWindowS (cl_unknown st) * second_ns \<le>s time_Sub now t"
    using assms(1)[unfolded env_records_def, rule_format, OF refl, of p] by blast
  then have w: "uWindowS (cl_unknown (env p st)) = uWindowS (cl_unknown st)"
    and run: "window_run (lim k * am) (lim k) b (uWindowS (cl_unknown st)) (unknown_get (cl_unknown st) k)
        (times_of k rs) = (unknown_get (cl_unknown (env p st)) k, decisions_of k rs ds)"
    using um.record_all_steps[OF assms(2), of am lim b rs] by (metis prod.inject sum.inject(2))+
  show "uWindowS (cl_unknown (env p st)) = uWindowS (cl_unknown st)" by (rule w)
  show "UnknownMap_Get (cl_unknown (env p st)) k = UnknownMap_Get (cl_unknown st) k
       \<or> \<not> unknown_idle (cl_unknown (env p st)) now k"
  proof (cases "times_of k rs = []")
    case True
    with run have "unknown_get (cl_unknown (env p st)) k = unknown_get (cl_unknown st) k" by simp
    then show ?thesis
      by (auto simp: unknown_get_def unknown_view_inj option.map_comp map_option_case split: option.splits)
  next
    case False
    then obtain v where v: "unknown_get (cl_unknown (env p st)) k = Some v" "wLast v = last (times_of k rs)"
      using window_run_last[OF False] run by (metis fst_conv)
    have "(last (times_of k rs), k) \<in> set rs"
      using last_in_set[OF False] by (auto simp: times_of_def)
    with r(2) v w have "\<not> window_idle (uWindowS (cl_unknown (env p st))) now v"
      by (simp add: window_idle_def)
    with v(1) show ?thesis by (auto simp: unknown_idle_def unknown_get_Some split: option.split)
  qed
qed

text \<open>C6: No request is lost between a transfer and the drop that follows it. Whatever requests the
  handlers record while cleanup works on an abusive counter, before its record is read, between
  reading and writing, or between writing and dropping, the counter is dropped only when the record
  just written to Redis is that counter as it stands when it is dropped; if a request came in
  between, the counter stays.\<close>

theorem transfer_loses_nothing:
  assumes "env_records (uWindowS (cl_unknown st)) now env" and "uWindowS (cl_unknown st) \<noteq> 0"
    and "cTransferThreshold c \<le>s uAbuseHits u"
    and "st2 = env (PointUpsert k) (env (PointGet k) st)"
    and "UnknownMap_Get (cl_unknown (env (PointGet k) st)) k = Some live"
    and "transfer ops c k live (cl_store st2) = (None, s')"
    and "st3 = env (PointUnknownDrop k) (st2\<lparr>cl_store := s'\<rparr>)"
  shows "\<exists>st4. unknown_entry ops c env now True (k, u) st =
        (Inr (if unknown_idle (cl_unknown st3) now k then 1 else 0, 1), st4)
    \<and> cl_store st4 = cl_store st3
    \<and> (if unknown_idle (cl_unknown st3) now k
       then cl_unknown st4 = UnknownMap_Delete (cl_unknown st3) k \<and> UnknownMap_Get (cl_unknown st3) k = Some live
       else cl_unknown st4 = cl_unknown st3)"
proof -
  let ?st1 = "env (PointGet k) st"
  let ?ws = "uWindowS (cl_unknown st)"
  let ?st2' = "st2\<lparr>cl_store := s'\<rparr>"
  have ws1: "uWindowS (cl_unknown ?st1) = ?ws" by (rule env_records_counter(1)[OF assms(1,2)])
  note env1 = env_records_counter[of ?st1 now env, unfolded ws1, OF assms(1,2)]
  have ws2: "uWindowS (cl_unknown ?st2') = ?ws" using env1(1) by (simp add: assms(4))
  note env2 = env_records_counter[of ?st2' now env, unfolded ws2, OF assms(1,2)]
  have ws3: "uWindowS (cl_unknown st3) = ?ws" using env2(1) by (simp add: assms(7))
  have same: "UnknownMap_Get (cl_unknown st3) k = Some live" if idle: "unknown_idle (cl_unknown st3) now k"
  proof -
    have 3: "UnknownMap_Get (cl_unknown st3) k = UnknownMap_Get (cl_unknown st2) k"
      using env2(2)[of "PointUnknownDrop k" k] idle by (simp add: assms(7))
    with idle ws2 ws3 have "unknown_idle (cl_unknown st2) now k"
      by (auto simp: unknown_idle_def split: option.splits)
    then have "UnknownMap_Get (cl_unknown st2) k = UnknownMap_Get (cl_unknown ?st1) k"
      using env1(2)[of "PointUpsert k" k] by (simp add: assms(4))
    with 3 assms(5) show ?thesis by simp
  qed
  have "transfer ops c k live (cl_store (env (PointUpsert k) (env (PointGet k) st))) = (None, s')"
    using assms(6) by (simp only: assms(4))
  then have "unknown_entry ops c env now True (k, u) st =
      (case drop_unknown now k st3 of (Inl p, st4) \<Rightarrow> (Inl p, st4) | (Inr d, st4) \<Rightarrow> (Inr (d, 1), st4))"
    using assms(3,5) unfolding assms(7) assms(4) by (simp add: unknown_entry_def Let_def)
  also have "\<dots> = (if unknown_idle (cl_unknown st3) now k
       then (Inr (1, 1), st3\<lparr>cl_unknown := UnknownMap_Delete (cl_unknown st3) k\<rparr>) else (Inr (0, 1), st3))"
    using ws3 assms(2) by (simp add: drop_unknown_eq)
  finally show ?thesis using same by simp
qed

text \<open>A request for the first address of the example, arriving just before its counter is dropped.\<close>

definition late_request :: "'s interference" where
  "late_request p st =
     (if p = PointUnknownDrop ''ip:1.2.3.4'' then
        (case UnknownMap_RecordRequest (cl_unknown st) (unix_time 399) ''ip:1.2.3.4'' 1 1 10 of
           Inl _ \<Rightarrow> st | Inr (m, d) \<Rightarrow> st\<lparr>cl_unknown := m\<rparr>)
      else st)"

lemma late_request_records: "env_records 60 (unix_time 400) late_request"
  unfolding env_records_def
proof (intro allI impI)
  fix p :: cleanup_point and st :: "'a cl_state"
  assume ws: "uWindowS (cl_unknown st) = 60"
  show "\<exists>lim b am rs ds.
        record_all (\<lambda>m now k l b. UnknownMap_RecordRequest m now k l b am) lim b (cl_unknown st) rs
          = Inr (cl_unknown (late_request p st), ds)
        \<and> (\<forall>(t, k)\<in>set rs. \<not> 2 * 60 * second_ns \<le>s time_Sub (unix_time 400) t)"
  proof (cases "p = PointUnknownDrop ''ip:1.2.3.4''")
    case True
    have old: "\<not> 2 * 60 * second_ns \<le>s time_Sub (unix_time 400) (unix_time 399)" by code_simp
    obtain m d where "UnknownMap_RecordRequest (cl_unknown st) (unix_time 399) ''ip:1.2.3.4'' 1 1 10 = Inr (m, d)"
      using um.record_steps[of "cl_unknown st" "unix_time 399" "''ip:1.2.3.4''" 1 1 10] ws by auto
    with True old show ?thesis
      by (intro exI[of _ "\<lambda>_. 1"] exI[of _ 1] exI[of _ 10] exI[of _ "[(unix_time 399, ''ip:1.2.3.4'')]"]
          exI[of _ "[d]"]) (simp add: late_request_def)
  next
    case False
    then show ?thesis
      by (intro exI[of _ "\<lambda>_. 1"] exI[of _ 1] exI[of _ 10] exI[of _ "[]"] exI[of _ "[]"])
        (simp add: late_request_def)
  qed
qed

theorem transfer_loses_nothing_witness:
  "\<exists>st4. unknown_entry (store_ops mem_clients) (cleanup_New 3 60) late_request (unix_time 400) True
      (''ip:1.2.3.4'', example_counter 130 3) (cleanup_example example_db) = (Inr (0, 1), st4)
    \<and> map_option uTotal (UnknownMap_Get (cl_unknown st4) ''ip:1.2.3.4'') = Some 10"
proof -
  let ?k = "''ip:1.2.3.4''"
  let ?st = "cleanup_example example_db"
  let ?st2 = "late_request (PointUpsert ?k) (late_request (PointGet ?k) ?st)"
  let ?s = "snd (transfer (store_ops mem_clients) (cleanup_New 3 60) ?k (example_counter 130 3) (cl_store ?st2))"
  let ?st3 = "late_request (PointUnknownDrop ?k) (?st2\<lparr>cl_store := ?s\<rparr>)"
  have ws: "uWindowS (cl_unknown ?st) = 60" by code_simp
  have thr: "cTransferThreshold (cleanup_New 3 60) \<le>s uAbuseHits (example_counter 130 3)"
    and get: "UnknownMap_Get (cl_unknown (late_request (PointGet ?k) ?st)) ?k = Some (example_counter 130 3)"
    and tr: "fst (transfer (store_ops mem_clients) (cleanup_New 3 60) ?k (example_counter 130 3) (cl_store ?st2)) = None"
    and live: "\<not> unknown_idle (cl_unknown ?st3) (unix_time 400) ?k"
    and tot: "map_option uTotal (UnknownMap_Get (cl_unknown ?st3) ?k) = Some 10"
    by code_simp+
  from tr have tr': "transfer (store_ops mem_clients) (cleanup_New 3 60) ?k (example_counter 130 3) (cl_store ?st2)
      = (None, ?s)" by (metis prod.collapse)
  have "(60 :: int64) \<noteq> 0" by simp
  from transfer_loses_nothing[of ?st "unix_time 400" late_request "cleanup_New 3 60" "example_counter 130 3" ?st2 ?k
      "example_counter 130 3" "store_ops mem_clients" ?s ?st3, unfolded ws, OF late_request_records this thr refl get tr' refl]
  show ?thesis using live tot by auto
qed

section \<open>The cycle and the loop\<close>

text \<open>The entries only count Redis errors in the metrics.\<close>

definition only_errors :: "metrics \<Rightarrow> metrics \<Rightarrow> bool" where
  "only_errors m m' \<longleftrightarrow> (\<exists>n. m' = m\<lparr>RedisErrorsTotal := n\<rparr>)"

lemma only_errors_refl [simp]: "only_errors m m"
  unfolding only_errors_def by (rule exI[of _ "RedisErrorsTotal m"]) simp

lemma only_errors_inc [simp]: "only_errors m (inc_redis_errors m)"
  by (auto simp: only_errors_def inc_redis_errors_def)

lemma only_errors_trans: "only_errors a b \<Longrightarrow> only_errors b c \<Longrightarrow> only_errors a c"
  by (auto simp: only_errors_def)

lemma known_entry_metrics: "only_errors (cl_metrics st) (cl_metrics (snd (known_entry ops undisturbed now k st)))"
  by (auto simp: known_entry_def Let_def case_prod_beta split: sum.split)

lemma unknown_entry_metrics:
  "only_errors (cl_metrics st) (cl_metrics (snd (unknown_entry ops c undisturbed now up snap st)))"
  by (auto simp: unknown_entry_def drop_unknown_def Let_def case_prod_beta split: sum.split option.split)

lemma known_entries_metrics:
  "only_errors (cl_metrics st) (cl_metrics (snd (known_entries ops undisturbed now snaps d st)))"
proof (induction snaps arbitrary: d st)
  case (Cons snap snaps)
  obtain k v where "snap = (k, v)" by (cases snap)
  then show ?case
    using Cons.IH known_entry_metrics[of st ops now k]
    by (auto simp del: undisturbed split: prod.split sum.split intro: only_errors_trans)
qed simp

lemma unknown_entries_metrics:
  "only_errors (cl_metrics st) (cl_metrics (snd (unknown_entries ops c undisturbed now up snaps acc st)))"
proof (induction snaps arbitrary: acc st)
  case (Cons snap snaps)
  show ?case
    using Cons.IH unknown_entry_metrics[of st ops c now up snap]
    by (auto simp del: undisturbed split: prod.split sum.split intro: only_errors_trans)
qed simp

lemma only_errorsD:
  "only_errors m m' \<Longrightarrow> CleanupRunsTotal m' = CleanupRunsTotal m
     \<and> CleanupDeletedTotal m' = CleanupDeletedTotal m \<and> CleanupTransferredTotal m' = CleanupTransferredTotal m"
  by (auto simp: only_errors_def)

text \<open>Well-formedness and windows through the cycles.\<close>

definition cl_wf :: "'s cl_state \<Rightarrow> bool" where
  "cl_wf st \<longleftrightarrow> wf_known (cl_known st) \<and> wf_unknown (cl_unknown st)"

lemma cl_wf_simps [simp]:
  "cl_wf (cl_logs e st) = cl_wf st" "cl_wf (cl_count f st) = cl_wf st" "cl_wf (st\<lparr>cl_store := s\<rparr>) = cl_wf st"
  by (simp_all add: cl_wf_def)

lemma known_entry_wf: "cl_wf st \<Longrightarrow> cl_wf (snd (known_entry ops undisturbed now k st))"
  by (auto simp: known_entry_def Let_def case_prod_beta cl_wf_def split: sum.split dest: wf_known_drop)

lemma unknown_entry_wf: "cl_wf st \<Longrightarrow> cl_wf (snd (unknown_entry ops c undisturbed now up snap st))"
  by (auto simp: unknown_entry_def drop_unknown_def Let_def case_prod_beta cl_wf_def
      split: sum.split option.split dest: wf_unknown_drop)

lemma known_entries_wf: "cl_wf st \<Longrightarrow> cl_wf (snd (known_entries ops undisturbed now snaps d st))"
proof (induction snaps arbitrary: d st)
  case (Cons snap snaps)
  obtain k v where "snap = (k, v)" by (cases snap)
  with Cons known_entry_wf[OF Cons.prems, of ops now k] show ?case
    by (auto simp del: undisturbed split: prod.split sum.split)
qed simp

lemma unknown_entries_wf: "cl_wf st \<Longrightarrow> cl_wf (snd (unknown_entries ops c undisturbed now up snaps acc st))"
proof (induction snaps arbitrary: acc st)
  case (Cons snap snaps)
  with unknown_entry_wf[OF Cons.prems, of ops c now up snap] show ?case
    by (auto simp del: undisturbed split: prod.split sum.split)
qed simp

lemma run_frames:
  "only_errors (cl_metrics st) (cl_metrics (snd (runKnown ops undisturbed ordK now st)))"
  "only_errors (cl_metrics st) (cl_metrics (snd (runUnknown ops c undisturbed ordU now st)))"
  "cl_wf st \<Longrightarrow> cl_wf (snd (runKnown ops undisturbed ordK now st))"
  "cl_wf st \<Longrightarrow> cl_wf (snd (runUnknown ops c undisturbed ordU now st))"
proof -
  show "only_errors (cl_metrics st) (cl_metrics (snd (runKnown ops undisturbed ordK now st)))"
    using known_entries_metrics[of st ops now _ 0]
    by (auto simp: runKnown_def split: prod.split sum.split) (metis snd_conv)+
  show "cl_wf (snd (runKnown ops undisturbed ordK now st))" if "cl_wf st"
    using known_entries_wf[OF that, of ops now _ 0]
    by (auto simp: runKnown_def split: prod.split sum.split) (metis snd_conv)+
qed (simp_all add: runUnknown_def unknown_entries_metrics unknown_entries_wf)

text \<open>How many counters a map has, by its keys.\<close>

lemma known_card: "wf_known m \<Longrightarrow> length (kCounters m) = card (dom (KnownMap_Get m))"
proof -
  assume "wf_known m"
  then have "card (fst ` set (kCounters m)) = length (kCounters m)"
    by (metis wf_known_def distinct_card length_map set_map)
  moreover have "KnownMap_Get m = map_of (kCounters m)" by (simp add: fun_eq_iff KnownMap_Get_def)
  ultimately show ?thesis by (simp add: dom_map_of_conv_image_fst)
qed

lemma unknown_card: "wf_unknown m \<Longrightarrow> length (uCounters m) = card (dom (UnknownMap_Get m))"
proof -
  assume "wf_unknown m"
  then have "card (fst ` set (uCounters m)) = length (uCounters m)"
    by (metis wf_unknown_def distinct_card length_map set_map)
  moreover have "UnknownMap_Get m = map_of (uCounters m)" by (simp add: fun_eq_iff UnknownMap_Get_def)
  ultimately show ?thesis by (simp add: dom_map_of_conv_image_fst)
qed

lemma filter_card: "distinct ks \<Longrightarrow> length (filter P ks) = card {k \<in> set ks. P k}"
  by (metis distinct_card distinct_filter set_filter)

lemma known_run_count:
  assumes "cl_wf st" and "iteration_order order"
  obtains st' deleted where "runKnown ops undisturbed order now st = (Inr (deleted, 0), st')"
    and "length (kCounters (cl_known st')) + deleted = length (kCounters (cl_known st))"
    and "cl_unknown st' = cl_unknown st"
proof -
  have wf: "wf_known (cl_known st)" using assms(1) by (simp add: cl_wf_def)
  let ?m = "order (kCounters (cl_known st))"
  let ?ans = "fst (exists_answers ops (map fst ?m) (cl_store st))"
  let ?gone = "\<lambda>(k, a). a = Inr False \<or> a = Inr True \<and> known_idle (cl_known st) now k"
  note snap = snapshot_entries[OF _ assms(2), of "kCounters (cl_known st)"]
  have dist: "distinct (map fst ?ans)" using snap(1) wf by (simp add: wf_known_def)
  have keys: "fst ` set ?ans = dom (KnownMap_Get (cl_known st))"
  proof -
    have "fst ` set ?ans = set (map fst ?ans)" by (simp only: set_map)
    also have "\<dots> = fst ` set ?m" by simp
    also have "\<dots> = dom (KnownMap_Get (cl_known st))"
      using snap(4) wf by (simp add: wf_known_def KnownMap_Get_def dom_def)
    finally show ?thesis .
  qed
  obtain st' where r: "runKnown ops undisturbed order now st = (Inr (length (filter ?gone ?ans), 0), st')"
    "KnownMap_Get (cl_known st') =
        (\<lambda>k. case map_of ?ans k of
               Some (Inl e) \<Rightarrow> KnownMap_Get (cl_known st) k
             | Some (Inr found) \<Rightarrow>
                 if found \<and> \<not> known_idle (cl_known st) now k then KnownMap_Get (cl_known st) k else None
             | None \<Rightarrow> None)"
    "cl_unknown st' = cl_unknown st"
    using known_cycle[OF wf assms(2), of ops now] by blast
  have wf': "wf_known (cl_known st')"
    using run_frames(3)[OF assms(1), of ops order now] r(1) by (simp add: cl_wf_def)
  have "dom (KnownMap_Get (cl_known st')) = fst ` set (filter (\<lambda>x. \<not> ?gone x) ?ans)"
  proof (intro set_eqI iffI)
    fix k assume "k \<in> dom (KnownMap_Get (cl_known st'))"
    then obtain a where "map_of ?ans k = Some a" "\<not> ?gone (k, a)"
      unfolding r(2) by (auto split: option.splits sum.splits if_splits)
    then show "k \<in> fst ` set (filter (\<lambda>x. \<not> ?gone x) ?ans)" by (force dest: map_of_SomeD)
  next
    fix k assume "k \<in> fst ` set (filter (\<lambda>x. \<not> ?gone x) ?ans)"
    then obtain ka where "ka \<in> set ?ans" "\<not> ?gone ka" "k = fst ka"
      by (simp only: set_filter image_iff mem_Collect_eq) blast
    then have a: "(k, snd ka) \<in> set ?ans" "\<not> ?gone (k, snd ka)" by (simp_all add: case_prod_beta)
    then have "map_of ?ans k = Some (snd ka)" using dist by simp
    moreover have "k \<in> dom (KnownMap_Get (cl_known st))" using a(1) keys by force
    ultimately show "k \<in> dom (KnownMap_Get (cl_known st'))"
      using a(2) unfolding r(2) by (cases "snd ka") auto
  qed
  then have "length (kCounters (cl_known st')) = card (fst ` set (filter (\<lambda>x. \<not> ?gone x) ?ans))"
    using known_card[OF wf'] by simp
  also have "\<dots> = length (filter (\<lambda>x. \<not> ?gone x) ?ans)"
    using distinct_card[OF distinct_map_filter[OF dist]] by (simp only: set_map length_map)
  finally have "length (kCounters (cl_known st')) + length (filter ?gone ?ans) = length ?ans"
    using sum_length_filter_compl[of ?gone ?ans] by simp
  moreover have "length ?ans = length (kCounters (cl_known st))"
  proof -
    have "length ?ans = length (map fst ?ans)" by (simp only: length_map)
    also have "\<dots> = length ?m" by simp
    also have "\<dots> = length (kCounters (cl_known st))"
      using snap(3) wf by (metis size_mset wf_known_def)
    finally show ?thesis .
  qed
  ultimately have "length (kCounters (cl_known st')) + length (filter ?gone ?ans) = length (kCounters (cl_known st))"
    by simp
  then show ?thesis using r(3) by (rule that[OF r(1)])
qed

lemma unknown_run_count:
  assumes "cl_wf st" and "iteration_order order"
  obtains st' deleted sent where "runUnknown ops c undisturbed order now st = (Inr (deleted, sent), st')"
    and "length (uCounters (cl_unknown st')) + deleted = length (uCounters (cl_unknown st))"
    and "cl_known st' = cl_known st"
proof -
  have wf: "wf_unknown (cl_unknown st)" using assms(1) by (simp add: cl_wf_def)
  let ?ks = "map fst (uCounters (cl_unknown st))"
  let ?idle = "unknown_idle (cl_unknown st) now"
  obtain st' sent where r: "runUnknown ops c undisturbed order now st = (Inr (length (filter ?idle ?ks), sent), st')"
    "UnknownMap_Get (cl_unknown st') = (\<lambda>k. if ?idle k then None else UnknownMap_Get (cl_unknown st) k)"
    "cl_known st' = cl_known st"
    using unknown_cycle[OF wf assms(2), of ops c now] by blast
  have wf': "wf_unknown (cl_unknown st')"
    using run_frames(4)[OF assms(1), of ops c order now] r(1) by (simp add: cl_wf_def)
  have "dom (UnknownMap_Get (cl_unknown st)) = set ?ks"
    by (simp add: UnknownMap_Get_def dom_map_of_conv_image_fst[symmetric] dom_def)
  then have "dom (UnknownMap_Get (cl_unknown st')) = set (filter (\<lambda>k. \<not> ?idle k) ?ks)"
    unfolding r(2) by (simp add: set_eq_iff dom_def del: filter_map set_map)
  then have "length (uCounters (cl_unknown st')) = length (filter (\<lambda>k. \<not> ?idle k) ?ks)"
    using unknown_card[OF wf'] wf distinct_card[of "filter (\<lambda>k. \<not> ?idle k) ?ks"]
    by (simp add: wf_unknown_def del: filter_map)
  moreover have "length (filter ?idle ?ks) + length (filter (\<lambda>k. \<not> ?idle k) ?ks) = length (uCounters (cl_unknown st))"
    using sum_length_filter_compl[of ?idle ?ks] by (simp only: length_map)
  ultimately have "length (uCounters (cl_unknown st')) + length (filter ?idle ?ks) = length (uCounters (cl_unknown st))"
    by linarith
  then show ?thesis using r(3) by (rule that[OF r(1)])
qed

text \<open>C20: A cycle without interference always finishes and accounts for every counter. Counters in
  memory before the cycle are those after it plus the number it adds to the "deleted" metric and
  logs; the run is counted once; the two gauges show the sizes of the maps it leaves, and the
  memory gauge their estimate.\<close>

theorem cycle_accounts:
  assumes "cl_wf st" and "cy_env cy = undisturbed"
    and "iteration_order (cy_knownOrder cy)" and "iteration_order (cy_unknownOrder cy)"
  shows "\<exists>st' deleted sent. cleanup_Run ops c cy st = (None, st')
    \<and> last (cl_log st') = CleanupFinished deleted sent (time_Sub (cy_end cy) (cy_start cy))
    \<and> length (kCounters (cl_known st)) + length (uCounters (cl_unknown st)) =
        length (kCounters (cl_known st')) + length (uCounters (cl_unknown st')) + deleted
    \<and> CleanupDeletedTotal (cl_metrics st') = CleanupDeletedTotal (cl_metrics st) + deleted
    \<and> CleanupTransferredTotal (cl_metrics st') = CleanupTransferredTotal (cl_metrics st) + sent
    \<and> CleanupRunsTotal (cl_metrics st') = Suc (CleanupRunsTotal (cl_metrics st))
    \<and> CountersKnownActive (cl_metrics st') = KnownMap_Len (cl_known st')
    \<and> CountersUnknownActive (cl_metrics st') = UnknownMap_Len (cl_unknown st')
    \<and> MemoryBytes (cl_metrics st') = KnownMap_SizeBytes (cl_known st') + UnknownMap_SizeBytes (cl_unknown st')
    \<and> cl_wf st'"
proof -
  let ?st0 = "cl_count inc_cleanup_runs st"
  have wf0: "cl_wf ?st0" using assms(1) by simp
  obtain st1 d1 where k: "runKnown ops undisturbed (cy_knownOrder cy) (cy_start cy) ?st0 = (Inr (d1, 0), st1)"
    "length (kCounters (cl_known st1)) + d1 = length (kCounters (cl_known ?st0))" "cl_unknown st1 = cl_unknown ?st0"
    using known_run_count[OF wf0 assms(3)] by metis
  have wf1: "cl_wf st1"
    using run_frames(3)[OF wf0, of ops "cy_knownOrder cy" "cy_start cy"] k(1) by simp
  obtain st2 d2 t2 where u: "runUnknown ops c undisturbed (cy_unknownOrder cy) (cy_start cy) st1 = (Inr (d2, t2), st2)"
    "length (uCounters (cl_unknown st2)) + d2 = length (uCounters (cl_unknown st1))" "cl_known st2 = cl_known st1"
    using unknown_run_count[OF wf1 assms(4)] by metis
  have wf2: "cl_wf st2"
    using run_frames(4)[OF wf1, of ops c "cy_unknownOrder cy" "cy_start cy"] u(1) by simp
  have m: "CleanupRunsTotal (cl_metrics st2) = Suc (CleanupRunsTotal (cl_metrics st))"
    "CleanupDeletedTotal (cl_metrics st2) = CleanupDeletedTotal (cl_metrics st)"
    "CleanupTransferredTotal (cl_metrics st2) = CleanupTransferredTotal (cl_metrics st)"
    using only_errorsD[OF run_frames(1)[of ?st0 ops "cy_knownOrder cy" "cy_start cy"]]
      only_errorsD[OF run_frames(2)[of st1 ops c "cy_unknownOrder cy" "cy_start cy"]] k(1) u(1)
    by (simp_all add: inc_cleanup_runs_def)
  obtain st' where run: "cleanup_Run ops c cy st = (None, st')" by (simp add: cleanup_Run_def Let_def assms(2) k(1) u(1) case_prod_beta)
  have eq: "st' = snd (cleanup_Run ops c cy st)" using run by simp
  show ?thesis
  proof (intro exI conjI)
    show "cleanup_Run ops c cy st = (None, st')" by (rule run)
    show "last (cl_log st') = CleanupFinished (d1 + d2) t2 (time_Sub (cy_end cy) (cy_start cy))"
      by (simp add: eq cleanup_Run_def Let_def assms(2) k(1) u(1) case_prod_beta cl_logs_def)
  qed (use k(2,3) u(2,3) m wf2 in \<open>simp_all add: eq cleanup_Run_def Let_def assms(2) k(1) u(1) case_prod_beta
      add_cleanup_totals_def gauge_defs set_redis_gauges_def inc_redis_errors_def split: sum.split\<close>)
qed

definition example_cycle :: "'s cycle" where
  "example_cycle = \<lparr>cy_env = undisturbed, cy_knownOrder = rev, cy_unknownOrder = rev,
     cy_start = unix_time 400, cy_end = unix_time 401\<rparr>"

theorem cycle_accounts_witness:
  "\<exists>st' deleted sent. cleanup_Run (store_ops mem_clients) (cleanup_New 3 60) example_cycle
      (known_example example_db) = (None, st')
    \<and> 6 = length (kCounters (cl_known st')) + length (uCounters (cl_unknown st')) + deleted"
proof -
  have n: "length (kCounters (cl_known (known_example example_db))) = 3"
    "length (uCounters (cl_unknown (known_example example_db))) = 3"
    by code_simp+
  have wf: "cl_wf (known_example example_db)" by (simp add: cl_wf_def)
  show ?thesis
    using cycle_accounts[OF wf, of example_cycle "store_ops mem_clients" "cleanup_New 3 60"] n
    by (auto simp: example_cycle_def)
qed

text \<open>Running a list of requests is a matter of the handlers; the loop itself sees ticks.\<close>

definition is_tick :: "'s loop_event \<Rightarrow> bool" where
  "is_tick ev = (case ev of Tick cy \<Rightarrow> True | Done \<Rightarrow> False)"

definition keeps_runs :: "'s interference \<Rightarrow> bool" where
  "keeps_runs env \<longleftrightarrow>
     (\<forall>p st. CleanupRunsTotal (cl_metrics (env p st)) = CleanupRunsTotal (cl_metrics st))"

lemma known_entry_runs:
  "keeps_runs env \<Longrightarrow>
     CleanupRunsTotal (cl_metrics (snd (known_entry ops env now k st))) = CleanupRunsTotal (cl_metrics st)"
  by (auto simp: keeps_runs_def known_entry_def Let_def case_prod_beta inc_redis_errors_def split: sum.split)

lemma drop_unknown_metrics [simp]: "cl_metrics (snd (drop_unknown now k st)) = cl_metrics st"
  by (auto simp: drop_unknown_def split: sum.split)

lemma unknown_entry_runs:
  "keeps_runs env \<Longrightarrow>
     CleanupRunsTotal (cl_metrics (snd (unknown_entry ops c env now up snap st))) = CleanupRunsTotal (cl_metrics st)"
  by (auto simp: keeps_runs_def unknown_entry_def drop_unknown_def Let_def case_prod_beta inc_redis_errors_def
      split: sum.split option.split)

lemma known_entries_runs:
  "keeps_runs env \<Longrightarrow>
     CleanupRunsTotal (cl_metrics (snd (known_entries ops env now snaps d st))) = CleanupRunsTotal (cl_metrics st)"
proof (induction snaps arbitrary: d st)
  case (Cons snap snaps)
  obtain k v where "snap = (k, v)" by (cases snap)
  with Cons known_entry_runs[OF Cons.prems, of ops now k st] show ?case
    by (auto split: prod.split sum.split)
qed simp

lemma unknown_entries_runs:
  "keeps_runs env \<Longrightarrow>
     CleanupRunsTotal (cl_metrics (snd (unknown_entries ops c env now up snaps acc st))) = CleanupRunsTotal (cl_metrics st)"
proof (induction snaps arbitrary: acc st)
  case (Cons snap snaps)
  with unknown_entry_runs[OF Cons.prems, of ops c now up snap st] show ?case
    by (auto split: prod.split sum.split)
qed simp

lemma cleanup_Run_runs:
  assumes "keeps_runs (cy_env cy)"
  shows "CleanupRunsTotal (cl_metrics (snd (cleanup_Run ops c cy st))) = Suc (CleanupRunsTotal (cl_metrics st))"
proof -
  have k: "CleanupRunsTotal (cl_metrics (snd (runKnown ops (cy_env cy) ord now st))) = CleanupRunsTotal (cl_metrics st)"
    for ord now st
    using known_entries_runs[OF assms] assms
    by (auto simp: runKnown_def keeps_runs_def Let_def split: prod.split sum.split) (metis snd_conv)+
  have u: "CleanupRunsTotal (cl_metrics (snd (runUnknown ops c (cy_env cy) ord now st))) = CleanupRunsTotal (cl_metrics st)"
    for ord now st
    using unknown_entries_runs[OF assms] assms by (simp add: runUnknown_def keeps_runs_def Let_def)
  show ?thesis
  proof (cases "runKnown ops (cy_env cy) (cy_knownOrder cy) (cy_start cy) (cl_count inc_cleanup_runs st)")
    case (Pair r st1)
    have 1: "CleanupRunsTotal (cl_metrics st1) = Suc (CleanupRunsTotal (cl_metrics st))"
      using k[of "cy_knownOrder cy" "cy_start cy" "cl_count inc_cleanup_runs st"] Pair
      by (simp add: inc_cleanup_runs_def)
    show ?thesis
    proof (cases "runUnknown ops c (cy_env cy) (cy_unknownOrder cy) (cy_start cy) st1")
      case P2: (Pair r2 st2)
      have "CleanupRunsTotal (cl_metrics st2) = CleanupRunsTotal (cl_metrics st1)"
        using u[of "cy_unknownOrder cy" "cy_start cy" st1] P2 by simp
      with 1 Pair P2 assms show ?thesis
        by (auto simp: cleanup_Run_def Let_def case_prod_beta keeps_runs_def add_cleanup_totals_def
            gauge_defs set_redis_gauges_def inc_redis_errors_def split: sum.split)
    qed
  qed
qed

text \<open>C22: The cleanup loop survives panics. Whatever the handlers do in between and whether a cycle
  finishes or panics, the loop runs one cycle per tick, until the context is cancelled and never
  after.\<close>

theorem loop_survives_panics:
  assumes "\<forall>cy. Tick cy \<in> set evs \<longrightarrow> keeps_runs (cy_env cy)"
  shows "CleanupRunsTotal (cl_metrics (cleanup_Loop ops c evs st)) =
    CleanupRunsTotal (cl_metrics st) + length (takeWhile is_tick evs)"
  using assms
proof (induction ops c evs st rule: cleanup_Loop.induct)
  case (3 ops c cy evs st)
  have "CleanupRunsTotal (cl_metrics (loop_tick ops c cy st)) = Suc (CleanupRunsTotal (cl_metrics st))"
    using cleanup_Run_runs[of cy ops c st] 3(2) by (auto simp: loop_tick_def split: prod.split option.split)
  with 3 show ?case by (simp add: is_tick_def)
qed (simp_all add: is_tick_def)

theorem loop_survives_panics_witness:
  "CleanupRunsTotal (cl_metrics (cleanup_Loop (store_ops mem_clients) (cleanup_New 3 60)
      [Tick example_cycle, Tick example_cycle, Done, Tick example_cycle]
      ((known_example example_db)\<lparr>cl_unknown := (cl_unknown (known_example example_db))\<lparr>uWindowS := 0\<rparr>\<rparr>))) = 2"
proof -
  have "keeps_runs undisturbed" by (simp add: keeps_runs_def)
  then have env: "\<forall>cy. Tick cy \<in> set [Tick example_cycle, Tick example_cycle, Done, Tick example_cycle]
      \<longrightarrow> keeps_runs (cy_env cy)" by (auto simp: example_cycle_def)
  show ?thesis
    by (subst loop_survives_panics[OF env])
      (simp add: is_tick_def known_example_def cleanup_example_def metrics_New_def)
qed

end
