(* ===== verification/Config.thy ===== *)
theory Config
  imports Go_Net Go_Time
begin

text \<open>
  \<^verbatim>\<open>internal/config/config.go\<close>: the settings record, its defaults, the flag table that
  \<^verbatim>\<open>BindFlags\<close> registers with pflag, start-up validation, the socket mode parser and the window
  length. Go's \<^verbatim>\<open>int\<close> is 64 bits wide on the platform the service is built for, so the products
  in \<^verbatim>\<open>Validate\<close> wrap as they do there.
\<close>

record config =
  Listen :: string
  SocketMode :: string
  AdminListen :: string
  MetricsListen :: string
  RedisAddr :: string
  RedisPassword :: string
  LogLevel :: string
  LogFormat :: string
  GlobalLimit :: int64
  Burst :: int64
  Window :: string
  CleanupInterval :: duration
  AbuseTTL :: duration
  AbuseMultiplier :: int64
  AbuseTransferThreshold :: int64

definition minute_ns :: int64 where "minute_ns = 60 * second_ns"

definition Default :: config where
  "Default = \<lparr>
     Listen = ''unix:/run/ratelimit.sock'',
     SocketMode = ''0666'',
     AdminListen = ''127.0.0.1:8080'',
     MetricsListen = ''127.0.0.1:9091'',
     RedisAddr = ''127.0.0.1:6379'',
     RedisPassword = '''',
     LogLevel = ''info'',
     LogFormat = ''json'',
     GlobalLimit = 100,
     Burst = 0,
     Window = ''second'',
     CleanupInterval = 15 * minute_ns,
     AbuseTTL = 15 * minute_ns,
     AbuseMultiplier = 10,
     AbuseTransferThreshold = 3\<rparr>"

section \<open>Flags\<close>

text \<open>A flag binds a name to a field: pflag reads the default through it and writes the parsed
  value to it. The parsing of the command line itself is pflag's.\<close>

datatype flag_var =
    StrVar "config \<Rightarrow> string" "string \<Rightarrow> config \<Rightarrow> config"
  | IntVar "config \<Rightarrow> int64" "int64 \<Rightarrow> config \<Rightarrow> config"
  | DurVar "config \<Rightarrow> duration" "duration \<Rightarrow> config \<Rightarrow> config"

datatype flag_value = StrVal string | IntVal int64 | DurVal duration

definition BindFlags :: "(string \<times> flag_var) list" where
  "BindFlags =
    [(''listen'', StrVar Listen (\<lambda>v c. c\<lparr>Listen := v\<rparr>)),
     (''socket-mode'', StrVar SocketMode (\<lambda>v c. c\<lparr>SocketMode := v\<rparr>)),
     (''admin-listen'', StrVar AdminListen (\<lambda>v c. c\<lparr>AdminListen := v\<rparr>)),
     (''metrics-listen'', StrVar MetricsListen (\<lambda>v c. c\<lparr>MetricsListen := v\<rparr>)),
     (''redis-addr'', StrVar RedisAddr (\<lambda>v c. c\<lparr>RedisAddr := v\<rparr>)),
     (''redis-password'', StrVar RedisPassword (\<lambda>v c. c\<lparr>RedisPassword := v\<rparr>)),
     (''log-level'', StrVar LogLevel (\<lambda>v c. c\<lparr>LogLevel := v\<rparr>)),
     (''log-format'', StrVar LogFormat (\<lambda>v c. c\<lparr>LogFormat := v\<rparr>)),
     (''global-limit'', IntVar GlobalLimit (\<lambda>v c. c\<lparr>GlobalLimit := v\<rparr>)),
     (''burst'', IntVar Burst (\<lambda>v c. c\<lparr>Burst := v\<rparr>)),
     (''window'', StrVar Window (\<lambda>v c. c\<lparr>Window := v\<rparr>)),
     (''cleanup-interval'', DurVar CleanupInterval (\<lambda>v c. c\<lparr>CleanupInterval := v\<rparr>)),
     (''abuse-ttl'', DurVar AbuseTTL (\<lambda>v c. c\<lparr>AbuseTTL := v\<rparr>)),
     (''abuse-multiplier'', IntVar AbuseMultiplier (\<lambda>v c. c\<lparr>AbuseMultiplier := v\<rparr>)),
     (''abuse-transfer-threshold'',
        IntVar AbuseTransferThreshold (\<lambda>v c. c\<lparr>AbuseTransferThreshold := v\<rparr>))]"

fun read_var :: "flag_var \<Rightarrow> config \<Rightarrow> flag_value" where
  "read_var (StrVar g _) c = StrVal (g c)"
| "read_var (IntVar g _) c = IntVal (g c)"
| "read_var (DurVar g _) c = DurVal (g c)"

fun write_var :: "flag_var \<Rightarrow> flag_value \<Rightarrow> config \<Rightarrow> config" where
  "write_var (StrVar _ s) (StrVal v) c = s v c"
| "write_var (IntVar _ s) (IntVal v) c = s v c"
| "write_var (DurVar _ s) (DurVal v) c = s v c"
| "write_var _ _ c = c"

fun same_kind :: "flag_var \<Rightarrow> flag_value \<Rightarrow> bool" where
  "same_kind (StrVar _ _) (StrVal _) = True"
| "same_kind (IntVar _ _) (IntVal _) = True"
| "same_kind (DurVar _ _) (DurVal _) = True"
| "same_kind _ _ = False"

section \<open>Validation\<close>

datatype mode_err = ModeEmpty | ModeParse go_err | ModeTooLarge

datatype config_err =
    InvalidLogLevel string
  | InvalidLogFormat string
  | InvalidWindow string
  | GlobalLimitErr int64
  | BurstNegative int64
  | CleanupIntervalErr duration
  | AbuseTTLErr duration
  | AbuseMultiplierErr int64
  | AbuseThresholdErr int64
  | BurstTooLarge int64 int64 int64 int64
  | InvalidSocketMode string mode_err

definition SocketModeParsed :: "config \<Rightarrow> mode_err + int" where
  "SocketModeParsed c =
     (let s = TrimSpace (SocketMode c) in
      if s = [] then Inl ModeEmpty
      else (case ParseUint 8 32 s of
              Inl e \<Rightarrow> Inl (ModeParse e)
            | Inr v \<Rightarrow> (if 511 < v then Inl ModeTooLarge else Inr v)))"

definition Validate :: "config \<Rightarrow> config_err option" where
  "Validate c =
     (if LogLevel c \<notin> {''debug'', ''info'', ''warn'', ''error''} then Some (InvalidLogLevel (LogLevel c))
      else if LogFormat c \<notin> {''json'', ''text''} then Some (InvalidLogFormat (LogFormat c))
      else if Window c \<notin> {''second'', ''minute''} then Some (InvalidWindow (Window c))
      else if GlobalLimit c \<le>s 0 then Some (GlobalLimitErr (GlobalLimit c))
      else if Burst c <s 0 then Some (BurstNegative (Burst c))
      else if CleanupInterval c \<le>s 0 then Some (CleanupIntervalErr (CleanupInterval c))
      else if AbuseTTL c \<le>s 0 then Some (AbuseTTLErr (AbuseTTL c))
      else if AbuseMultiplier c \<le>s 0 then Some (AbuseMultiplierErr (AbuseMultiplier c))
      else if AbuseTransferThreshold c \<le>s 0 then Some (AbuseThresholdErr (AbuseTransferThreshold c))
      else if GlobalLimit c * AbuseMultiplier c \<le>s Burst c
        then Some (BurstTooLarge (Burst c) (GlobalLimit c) (AbuseMultiplier c)
                     (GlobalLimit c * AbuseMultiplier c))
      else (case SocketModeParsed c of
              Inl e \<Rightarrow> Some (InvalidSocketMode (SocketMode c) e)
            | Inr _ \<Rightarrow> None))"

definition WindowSeconds :: "config \<Rightarrow> int64" where
  "WindowSeconds c = (if Window c = ''minute'' then 60 else 1)"

section \<open>Lemmas\<close>

lemma WindowSeconds_cases: "WindowSeconds c = 1 \<or> WindowSeconds c = 60"
  by (simp add: WindowSeconds_def)

lemma WindowSeconds_nz [simp]: "WindowSeconds c \<noteq> 0"
  by (simp add: WindowSeconds_def)

lemma sint_WindowSeconds: "sint (WindowSeconds c) = 1 \<or> sint (WindowSeconds c) = 60"
  by (simp add: WindowSeconds_def)

lemma SocketModeParsed_bound: "SocketModeParsed c = Inr v \<Longrightarrow> v \<le> 511"
  by (simp add: SocketModeParsed_def Let_def split: if_split_asm sum.split_asm)

lemma guard_None: "(if b then Some x else r) = None \<longleftrightarrow> \<not> b \<and> r = None"
  by simp

lemma SocketModeParsed_None:
  "(case SocketModeParsed c of Inl e \<Rightarrow> Some (f e) | Inr _ \<Rightarrow> None) = None
     \<longleftrightarrow> (\<exists>v \<le> 511. SocketModeParsed c = Inr v)"
  by (auto dest: SocketModeParsed_bound split: sum.splits)

lemma sint_not_le0 [int64_simps]: "\<not> a \<le>s (0 :: int64) \<longleftrightarrow> 0 < sint a"
  by (simp add: word_sle_eq not_le)

lemmas Validate_unfold = Validate_def guard_None SocketModeParsed_None

lemma ValidateD:
  assumes "Validate c = None"
  shows "0 < sint (GlobalLimit c)" and "0 \<le> sint (Burst c)" and "0 < sint (AbuseMultiplier c)"
    and "0 < sint (AbuseTransferThreshold c)" and "0 < sint (AbuseTTL c)"
    and "0 < sint (CleanupInterval c)"
    and "sint (Burst c) < sint (GlobalLimit c * AbuseMultiplier c)"
    and "\<exists>v \<le> 511. SocketModeParsed c = Inr v"
  using assms by (simp_all only: Validate_unfold) (simp_all add: word_sle_eq word_sless_alt not_le not_less)

lemma Default_valid: "Validate Default = None"
  by code_simp

lemma validate_iff:
  "Validate c = None \<longleftrightarrow>
     LogLevel c \<in> {''debug'', ''info'', ''warn'', ''error''} \<and> LogFormat c \<in> {''json'', ''text''}
     \<and> Window c \<in> {''second'', ''minute''}
     \<and> 0 < sint (GlobalLimit c) \<and> 0 \<le> sint (Burst c)
     \<and> 0 < sint (CleanupInterval c) \<and> 0 < sint (AbuseTTL c)
     \<and> 0 < sint (AbuseMultiplier c) \<and> 0 < sint (AbuseTransferThreshold c)
     \<and> sint (Burst c) < sint (GlobalLimit c * AbuseMultiplier c)
     \<and> (\<exists>v \<le> 511. SocketModeParsed c = Inr v)"
  by (simp only: Validate_unfold) (simp add: word_sle_eq word_sless_alt not_le not_less del: insert_iff)

section \<open>The documented ranges\<close>

text \<open>What the documentation calls a file mode in octal, positionally: a numeral of the digits 0 to
  7, each weighted by the power of eight of its place.\<close>

definition octal_char :: "char \<Rightarrow> bool" where
  "octal_char c \<longleftrightarrow> c \<in> set ''01234567''"

definition octal_digits :: "string \<Rightarrow> bool" where
  "octal_digits s \<longleftrightarrow> s \<noteq> [] \<and> list_all octal_char s"

fun octal_value :: "string \<Rightarrow> int" where
  "octal_value [] = 0"
| "octal_value (c # cs) = (of_char c - 48) * 8 ^ length cs + octal_value cs"

lemma octal_char_iff: "octal_char c \<longleftrightarrow> 48 \<le> (of_char c :: int) \<and> of_char c < (56 :: int)"
proof
  assume "octal_char c"
  then show "48 \<le> (of_char c :: int) \<and> of_char c < (56 :: int)" by (auto simp: octal_char_def)
next
  assume r: "48 \<le> (of_char c :: int) \<and> of_char c < (56 :: int)"
  have "c = char_of (of_char c :: int)" by simp
  moreover have "(of_char c :: int) \<in> {48, 49, 50, 51, 52, 53, 54, 55}" using r by auto
  ultimately show "octal_char c" by (auto simp: octal_char_def char_of_def)
qed

lemma digit_val_octal: "digit_val 8 c = (if octal_char c then Some (of_char c - 48) else None)"
  by (auto simp: octal_char_iff digit_val_def Let_def)

lemma octal_value_nonneg: "list_all octal_char s \<Longrightarrow> 0 \<le> octal_value s"
  by (induction s) (auto simp: octal_char_iff)

lemma uint_loop_octal:
  assumes "0 \<le> acc" and "acc < 2 ^ bits"
  shows "uint_loop 8 bits acc s = Inr v \<longleftrightarrow>
     list_all octal_char s \<and> v = acc * 8 ^ length s + octal_value s \<and> v < 2 ^ bits"
  using assms
proof (induction s arbitrary: acc)
  case Nil
  then show ?case by auto
next
  case (Cons c cs)
  show ?case
  proof (cases "octal_char c")
    case False
    then show ?thesis by (simp add: digit_val_octal)
  next
    case True
    define d where "d = (of_char c - 48 :: int)"
    have d: "0 \<le> d" using True by (simp add: octal_char_iff d_def)
    have val: "acc * 8 ^ length (c # cs) + octal_value (c # cs) = (acc * 8 + d) * 8 ^ length cs + octal_value cs"
      by (simp add: d_def algebra_simps)
    have grow: "acc * 8 + d \<le> (acc * 8 + d) * 8 ^ length cs + octal_value cs" if "list_all octal_char cs"
    proof -
      have "(acc * 8 + d) * 1 \<le> (acc * 8 + d) * 8 ^ length cs"
        by (rule mult_left_mono) (use Cons.prems d in auto)
      then show ?thesis using octal_value_nonneg[OF that] by simp
    qed
    have loop: "uint_loop 8 bits acc (c # cs)
        = (if 2 ^ bits \<le> acc * 8 + d then Inl ErrRange else uint_loop 8 bits (acc * 8 + d) cs)"
      using True by (simp add: digit_val_octal d_def)
    have sub: "list_all octal_char (c # cs) \<longleftrightarrow> list_all octal_char cs" using True by simp
    show ?thesis
    proof (cases "2 ^ bits \<le> acc * 8 + d")
      case True
      then show ?thesis unfolding loop val sub using grow by fastforce
    next
      case False
      then show ?thesis unfolding loop val sub using Cons.IH[of "acc * 8 + d"] Cons.prems d by simp
    qed
  qed
qed

lemma SocketModeParsed_octal:
  "SocketModeParsed c = Inr v \<longleftrightarrow>
     (let s = TrimSpace (SocketMode c) in octal_digits s \<and> octal_value s \<le> 511 \<and> v = octal_value s)"
proof -
  define s where "s = TrimSpace (SocketMode c)"
  have loop: "uint_loop 8 32 0 s = Inr w \<longleftrightarrow> list_all octal_char s \<and> w = octal_value s \<and> w < 2 ^ 32" for w
    using uint_loop_octal[of 0 32 s w] by simp
  have "SocketModeParsed c = Inr v \<longleftrightarrow> s \<noteq> [] \<and> uint_loop 8 32 0 s = Inr v \<and> v \<le> 511"
    unfolding SocketModeParsed_def Let_def s_def[symmetric] ParseUint_def
    by (cases "uint_loop 8 32 0 s") auto
  moreover have "v \<le> 511 \<Longrightarrow> v < 2 ^ 32" by simp
  ultimately show ?thesis
    unfolding Let_def s_def[symmetric] octal_digits_def loop by blast
qed

text \<open>C40: start-up accepts exactly the settings the documentation lists, over the integers, as
  long as the product of the limit and the multiplier fits 64 bits: known level, format and window
  names, positive limit, intervals, multiplier and threshold, a non-negative burst below limit
  times multiplier, and a socket mode that, trimmed, is an octal numeral from 0 to 0777; the mode
  the socket then gets is that numeral's value.\<close>

theorem validate_documented:
  assumes "sint (GlobalLimit c) * sint (AbuseMultiplier c) < 2 ^ 63"
  shows "(Validate c = None \<longleftrightarrow>
     LogLevel c \<in> {''debug'', ''info'', ''warn'', ''error''} \<and> LogFormat c \<in> {''json'', ''text''}
     \<and> Window c \<in> {''second'', ''minute''}
     \<and> 0 < sint (GlobalLimit c) \<and> 0 \<le> sint (Burst c)
     \<and> 0 < sint (CleanupInterval c) \<and> 0 < sint (AbuseTTL c)
     \<and> 0 < sint (AbuseMultiplier c) \<and> 0 < sint (AbuseTransferThreshold c)
     \<and> sint (Burst c) < sint (GlobalLimit c) * sint (AbuseMultiplier c)
     \<and> octal_digits (TrimSpace (SocketMode c)) \<and> octal_value (TrimSpace (SocketMode c)) \<le> 511)
   \<and> (Validate c = None \<longrightarrow> SocketModeParsed c = Inr (octal_value (TrimSpace (SocketMode c))))"
proof -
  have mode: "(\<exists>v \<le> 511. SocketModeParsed c = Inr v) \<longleftrightarrow>
      octal_digits (TrimSpace (SocketMode c)) \<and> octal_value (TrimSpace (SocketMode c)) \<le> 511"
    by (auto simp: SocketModeParsed_octal Let_def)
  have prod: "sint (GlobalLimit c * AbuseMultiplier c) = sint (GlobalLimit c) * sint (AbuseMultiplier c)"
    if "0 < sint (GlobalLimit c)" "0 < sint (AbuseMultiplier c)"
    by (rule sint_mult_in_range) (use assms less_imp_le[OF mult_pos_pos[OF that]] in linarith)
  show ?thesis unfolding validate_iff mode using prod
    by (auto simp: SocketModeParsed_octal Let_def simp del: insert_iff)
qed

text \<open>The defaults, and a mode with a digit that is not octal.\<close>

theorem validate_documented_witness:
  "sint (GlobalLimit Default) * sint (AbuseMultiplier Default) < 2 ^ 63
   \<and> Validate Default = None \<and> octal_value (TrimSpace (SocketMode Default)) = 438
   \<and> SocketModeParsed Default = Inr 438
   \<and> Validate (Default\<lparr>SocketMode := ''0668''\<rparr>) \<noteq> None"
proof -
  have small: "sint (GlobalLimit Default) * sint (AbuseMultiplier Default) < 2 ^ 63" by code_simp
  have small': "sint (GlobalLimit (Default\<lparr>SocketMode := ''0668''\<rparr>))
      * sint (AbuseMultiplier (Default\<lparr>SocketMode := ''0668''\<rparr>)) < 2 ^ 63" by code_simp
  have val: "octal_value (TrimSpace (SocketMode Default)) = 438" by code_simp
  have bad: "\<not> octal_digits (TrimSpace (SocketMode (Default\<lparr>SocketMode := ''0668''\<rparr>)))" by code_simp
  show ?thesis
    using validate_documented[OF small] validate_documented[OF small'] Default_valid small val bad
    by auto
qed

text \<open>Every flag is bound to a field of its own. A value written through a flag is the one
  read back through it, what the other flags read stays as it was, and no flag name is bound
  twice (pflag panics on a redefinition).\<close>

theorem flags_independent:
  "distinct (map fst BindFlags) \<and>
   (\<forall>(n, v) \<in> set BindFlags. \<forall>(n', v') \<in> set BindFlags. same_kind v x \<longrightarrow>
      read_var v' (write_var v x c) = (if n' = n then x else read_var v' c))"
proof (cases x)
  case (StrVal s)
  then show ?thesis by (simp add: BindFlags_def)
next
  case (IntVal i)
  then show ?thesis by (simp add: BindFlags_def)
next
  case (DurVal d)
  then show ?thesis by (simp add: BindFlags_def)
qed

theorem flags_independent_witness:
  "read_var (IntVar Burst (\<lambda>v c. c\<lparr>Burst := v\<rparr>))
     (write_var (IntVar Burst (\<lambda>v c. c\<lparr>Burst := v\<rparr>)) (IntVal 7) Default) = IntVal 7
   \<and> read_var (IntVar GlobalLimit (\<lambda>v c. c\<lparr>GlobalLimit := v\<rparr>))
     (write_var (IntVar Burst (\<lambda>v c. c\<lparr>Burst := v\<rparr>)) (IntVal 7) Default) = IntVal (GlobalLimit Default)"
  using flags_independent[of "IntVal 7" Default] by (simp add: BindFlags_def)

end
