(* ===== verification/Go_Format.thy ===== *)
theory Go_Format
  imports Go_Time Go_Net "HOL-Library.Char_ord" "HOL-Library.List_Lexorder"
begin

text \<open>
  The formatting and comparing the admin pages do with the standard library: \<^verbatim>\<open>time.Duration\<close>'s
  \<^verbatim>\<open>String\<close> and \<^verbatim>\<open>Truncate\<close>, the date layout \<^verbatim>\<open>2006-01-02 15:04:05\<close> in UTC, \<^verbatim>\<open>url.Values.Encode\<close>,
  \<^verbatim>\<open>hex.EncodeToString\<close> and \<^verbatim>\<open>subtle.ConstantTimeCompare\<close>. Strings compare bytewise, which is
  \<open><\<close> of \<open>List_Lexorder\<close> over \<open>Char_ord\<close>.
\<close>

section \<open>Durations\<close>

text \<open>\<^verbatim>\<open>fmtFrac\<close>: the digits of a fraction without trailing zeros, and the integer part left.\<close>

fun fmt_frac :: "nat \<Rightarrow> int \<Rightarrow> bool \<Rightarrow> string \<Rightarrow> string \<times> int" where
  "fmt_frac 0 v printing acc = (if printing then CHR ''.'' # acc else acc, v)"
| "fmt_frac (Suc n) v printing acc =
     (let d = v mod 10; printing' = (printing \<or> d \<noteq> 0)
      in fmt_frac n (v div 10) printing' (if printing' then digit_char d # acc else acc))"

definition small_duration :: "int \<Rightarrow> string" where
  "small_duration u =
     (if u = 0 then ''0s''
      else if u < 1000 then dec_digits u @ ''ns''
      else if u < 1000000 then (case fmt_frac 3 u False [] of (f, v) \<Rightarrow> dec_digits v @ f @ [CHR 0xC2, CHR 0xB5, CHR ''s''])
      else (case fmt_frac 6 u False [] of (f, v) \<Rightarrow> dec_digits v @ f @ ''ms''))"

definition duration_String :: "duration \<Rightarrow> string" where
  "duration_String d =
     (let u = \<bar>sint d\<bar>;
          body = (if u < 1000000000 then small_duration u
                  else (case fmt_frac 9 u False [] of (f, s) \<Rightarrow>
                    (let m = s div 60; h = m div 60 in
                     (if 0 < m then (if 0 < h then dec_digits h @ ''h'' else []) @ dec_digits (m mod 60) @ ''m''
                      else []) @ dec_digits (s mod 60) @ f @ ''s'')))
      in if sint d < 0 then CHR ''-'' # body else body)"

definition duration_Truncate :: "duration \<Rightarrow> duration \<Rightarrow> duration" where
  "duration_Truncate d m = (if m \<le>s 0 then d else d - (d - go_quot d m * m))"

lemma duration_String_samples:
  "duration_String 0 = ''0s''" "duration_String (5 * 60 * second_ns) = ''5m0s''"
  "duration_String 1500000000 = ''1.5s''" "duration_String (- 90061000000000) = ''-25h1m1s''"
  "duration_String 2500000 = ''2.5ms''"
  by code_simp+

section \<open>Dates\<close>

text \<open>The proleptic Gregorian date of a day number counted from 1970-01-01.\<close>

definition civil_date :: "int \<Rightarrow> int \<times> int \<times> int" where
  "civil_date days =
     (let z = days + 719468; era = z div 146097; doe = z mod 146097;
          yoe = (doe - doe div 1460 + doe div 36524 - doe div 146096) div 365;
          doy = doe - (365 * yoe + yoe div 4 - yoe div 100);
          mp = (5 * doy + 2) div 153;
          d = doy - (153 * mp + 2) div 5 + 1;
          m = (if mp < 10 then mp + 3 else mp - 9);
          y = yoe + era * 400
      in (if m \<le> 2 then y + 1 else y, m, d))"

definition pad_int :: "nat \<Rightarrow> int \<Rightarrow> string" where
  "pad_int width i =
     (let ds = dec_digits \<bar>i\<bar>
      in (if i < 0 then ''-'' else []) @ replicate (width - length ds) (CHR ''0'') @ ds)"

definition format_datetime :: "go_time \<Rightarrow> string" where
  "format_datetime t =
     (let s = sint (time_Unix t); day = s div 86400; r = s mod 86400 in
      case civil_date day of (y, m, d) \<Rightarrow>
        pad_int 4 y @ ''-'' @ pad_int 2 m @ ''-'' @ pad_int 2 d @ '' '' @
        pad_int 2 (r div 3600) @ '':'' @ pad_int 2 (r div 60 mod 60) @ '':'' @ pad_int 2 (r mod 60))"

lemma format_datetime_samples:
  "format_datetime (unix_time 0) = ''1970-01-01 00:00:00''"
  "format_datetime (unix_time 951782399) = ''2000-02-28 23:59:59''"
  "format_datetime (unix_time 951782400) = ''2000-02-29 00:00:00''"
  "format_datetime (unix_time 1700000000) = ''2023-11-14 22:13:20''"
  "format_datetime (unix_time (- 1)) = ''1969-12-31 23:59:59''"
  by code_simp+

section \<open>Encoding\<close>

text \<open>\<^verbatim>\<open>url.Values.Encode\<close> of single-valued settings, sorted by key.\<close>

definition encode_setting :: "string \<times> string \<Rightarrow> string" where
  "encode_setting kv = QueryEscape (fst kv) @ ''='' @ QueryEscape (snd kv)"

fun join_with :: "string \<Rightarrow> string list \<Rightarrow> string" where
  "join_with sep [] = []"
| "join_with sep [x] = x"
| "join_with sep (x # y # ys) = x @ sep @ join_with sep (y # ys)"

definition values_encode :: "(string \<times> string) list \<Rightarrow> string" where
  "values_encode kvs = join_with ''&'' (map encode_setting (sort_slice (\<lambda>a b. fst a < fst b) kvs))"

text \<open>\<^verbatim>\<open>hex.EncodeToString\<close>.\<close>

definition hex_lower :: "int \<Rightarrow> char" where
  "hex_lower n = (if n < 10 then char_of (48 + n) else char_of (87 + n))"

definition hex_encode :: "int list \<Rightarrow> string" where
  "hex_encode bs = concat (map (\<lambda>b. [hex_lower (b div 16), hex_lower (b mod 16)]) bs)"

text \<open>\<^verbatim>\<open>subtle.ConstantTimeCompare\<close>: 0 for different lengths, else the or of the bytewise differences
  compared with zero, without an early exit.\<close>

definition constant_time_compare :: "string \<Rightarrow> string \<Rightarrow> int64" where
  "constant_time_compare x y =
     (if length x \<noteq> length y then 0
      else if foldl (\<lambda>v (a, b). or v (xor (of_char a) (of_char b))) (0 :: 8 word) (zip x y) = 0 then 1 else 0)"

end
