(* ===== verification/Admin.thy ===== *)
theory Admin
  imports Store Counter Config Go_Format
begin

text \<open>
  \<^verbatim>\<open>internal/admin/admin.go\<close>: the admin pages. A handler takes the request and returns the response
  with the new state; a page is the data handed to its template. Three libraries are arguments:
  what \<^verbatim>\<open>ParseForm\<close> made of the body (\<open>wr_postForm\<close>), what the Prometheus registry gathers
  (\<open>av_gather\<close>), and how it prints floating-point values (\<open>av_float\<close>). The clock and the iteration
  orders of the two maps are arguments too (\<open>admin_env\<close>). A handler that scans Redis may not return
  (None), and may panic (\<open>Inl\<close>), which net/http answers by closing the connection.
\<close>

section \<open>Requests and responses\<close>

record web_request =
  wr_method :: string
  wr_path :: string
  wr_rawQuery :: string
  wr_postForm :: "go_err + (string \<times> string) list"
  wr_remote :: string

definition wr_query :: "web_request \<Rightarrow> string \<Rightarrow> string" where
  "wr_query r name = query_get (ParseQuery (wr_rawQuery r)) name"

text \<open>\<^verbatim>\<open>PostFormValue\<close>: the first value, empty when there is none or the form did not parse;
  \<^verbatim>\<open>PostForm[name]\<close>: all values in order.\<close>

definition PostFormValue :: "web_request \<Rightarrow> string \<Rightarrow> string" where
  "PostFormValue r name = (case wr_postForm r of Inl _ \<Rightarrow> [] | Inr form \<Rightarrow> query_get form name)"

definition form_values :: "(string \<times> string) list \<Rightarrow> string \<Rightarrow> string list" where
  "form_values form name = map snd (filter (\<lambda>kv. fst kv = name) form)"

text \<open>A response: a template with its data, \<^verbatim>\<open>http.Error\<close> (code, text, and the error whose text follows),
  a redirect, or a bare status.\<close>

datatype 'p response =
    Rendered string 'p
  | HttpError nat string "go_err option"
  | Redirect string nat
  | BareStatus nat

definition pageSize :: int64 where "pageSize = 25"
definition topN :: nat where "topN = 25"

section \<open>Page data\<close>

record flag_row =
  fr_Name :: string
  fr_Value :: string

record metric_row =
  mr_Name :: string
  mr_Type :: string
  mr_Value :: string
  mr_Help :: string

record index_data =
  ix_Title :: string
  ix_Version :: string
  ix_Uptime :: string
  ix_Now :: string
  ix_RedisOK :: bool
  ix_FlagRows :: "flag_row list"
  ix_MetricRows :: "metric_row list"

record knownTopRow =
  ktKey :: string
  ktTotal :: int64
  ktBurstHits :: int64
  ktViolationHits :: int64

record unknownTopRow =
  utKey :: string
  utTotal :: int64
  utBurstHits :: int64
  utAbuseHits :: int64

record limitsRow =
  lrAPIKey :: string
  lrLimit :: int64
  lrCreatedAt :: go_time
  lrTotal :: int64
  lrWindowsAbove :: int64
  lrBurstRequests :: int64

record abuseRow =
  abKey :: string
  abFirstSeen :: go_time
  abLastSeen :: go_time
  abTotal :: int64
  abBurstHits :: int64
  abAbuseHits :: int64
  abTTL :: duration

text \<open>The two list pages share their frame; \<^verbatim>\<open>limitsPage\<close> has no key header.\<close>

record ('row, 'top) list_page =
  lp_Title :: string
  lp_BasePath :: string
  lp_Rows :: "'row list"
  lp_Page :: int64
  lp_HasPrev :: bool
  lp_HasNext :: bool
  lp_Q :: string
  lp_Total :: int64
  lp_DeleteAction :: string
  lp_PurgeAction :: string
  lp_TopRows :: "'top list"
  lp_TopSort :: string
  lp_KeyHeader :: string
  lp_CSRFToken :: string

record confirmData =
  cd_Title :: string
  cd_Message :: string
  cd_Action :: string
  cd_BackTo :: string
  cd_ConfirmLabel :: string
  cd_CSRFToken :: string

datatype admin_page =
    IndexPage index_data
  | LimitsPage "(limitsRow, knownTopRow) list_page"
  | AbusePage "(abuseRow, unknownTopRow) list_page"
  | ConfirmPage confirmData

section \<open>The server\<close>

datatype admin_log =
    CsrfRejected string string
  | AdminDeleteFailed string go_err
  | AdminDeleted string nat int64
  | AdminPurgeFailed string go_err
  | AdminPurged string

record admin_server =
  sv_cfg :: config
  sv_startedAt :: go_time
  sv_version :: string
  sv_csrfToken :: string

record 'r admin_state =
  ad_known :: known_map
  ad_unknown :: unknown_map
  ad_store :: "'r store"
  ad_log :: "admin_log list"

text \<open>A gathered sample, by its protobuf getters, and the family it belongs to.\<close>

datatype metric_type = COUNTER | GAUGE | SUMMARY | UNTYPED | HISTOGRAM | GAUGE_HISTOGRAM

record 'f sample =
  sm_labels :: "(string \<times> string) list"
  sm_counter :: 'f
  sm_gauge :: 'f
  sm_histogram :: "(int64 \<times> 'f) option"
  sm_summary :: "(int64 \<times> 'f) option"

record 'f metric_family =
  mf_name :: string
  mf_help :: string
  mf_type :: metric_type
  mf_metrics :: "'f sample list"

text \<open>\<open>av_float\<close> prints a float in full (\<^verbatim>\<open>FormatFloat(v, 'f', -1, 64)\<close>), \<open>av_float6\<close> with six decimals,
  \<open>av_quote\<close> is the \<^verbatim>\<open>%q\<close> verb.\<close>

record 'f admin_env =
  av_now :: go_time
  av_knownOrder :: "(string \<times> known_counter) list \<Rightarrow> (string \<times> known_counter) list"
  av_unknownOrder :: "(string \<times> unknown_counter) list \<Rightarrow> (string \<times> unknown_counter) list"
  av_gather :: "go_err + 'f metric_family list"
  av_float :: "'f \<Rightarrow> string"
  av_float6 :: "'f \<Rightarrow> string"
  av_quote :: "string \<Rightarrow> string"

text \<open>The result of a handler.\<close>

type_synonym 'r handled = "(go_panic + admin_page response) \<times> 'r admin_state"

definition ad_logs :: "admin_log \<Rightarrow> 'r admin_state \<Rightarrow> 'r admin_state" where
  "ad_logs e st = st\<lparr>ad_log := ad_log st @ [e]\<rparr>"

definition on_store :: "('r store \<Rightarrow> 'a \<times> 'r store) \<Rightarrow> 'r admin_state \<Rightarrow> 'a \<times> 'r admin_state" where
  "on_store f st = (case f (ad_store st) of (a, s) \<Rightarrow> (a, st\<lparr>ad_store := s\<rparr>))"

text \<open>The token: 32 random bytes, hexadecimal; the random source is an argument.\<close>

definition newCSRFToken :: "(go_err + int list) \<Rightarrow> go_err + string" where
  "newCSRFToken rand = (case rand of Inl e \<Rightarrow> Inl e | Inr b \<Rightarrow> Inr (hex_encode b))"

definition admin_New :: "config \<Rightarrow> go_time \<Rightarrow> string \<Rightarrow> (go_err + int list) \<Rightarrow> go_err + admin_server" where
  "admin_New cfg startedAt version rand =
     (case newCSRFToken rand of
        Inl e \<Rightarrow> Inl e
      | Inr token \<Rightarrow>
          Inr \<lparr>sv_cfg = cfg, sv_startedAt = startedAt, sv_version = version, sv_csrfToken = token\<rparr>)"

text \<open>\<^verbatim>\<open>checkCSRF\<close>: whether the request may go on, or the answer to it.\<close>

definition checkCSRF ::
  "admin_server \<Rightarrow> web_request \<Rightarrow> 'r admin_state \<Rightarrow> admin_page response option \<times> 'r admin_state" where
  "checkCSRF sv r st =
     (let got = PostFormValue r ''csrf_token'' in
      if constant_time_compare got (sv_csrfToken sv) \<noteq> 1 then
        (Some (HttpError 403 ''csrf token invalid'' None), ad_logs (CsrfRejected (wr_path r) (wr_remote r)) st)
      else (None, st))"

section \<open>Template functions\<close>

definition em_dash :: string where "em_dash = [CHR 0xE2, CHR 0x80, CHR 0x94]"

definition fmtTime :: "go_time \<Rightarrow> string" where
  "fmtTime t = (if time_IsZero t \<or> time_Unix t = 0 then em_dash else format_datetime t)"

definition fmtDuration :: "duration \<Rightarrow> string" where
  "fmtDuration d = (if d \<le>s 0 then em_dash else duration_String (duration_Truncate d second_ns))"

definition topsortURL :: "string \<Rightarrow> string \<Rightarrow> string \<Rightarrow> int64 \<Rightarrow> string" where
  "topsortURL path sortBy q page =
     (let v = [(''topsort'', sortBy)];
          v = (if q \<noteq> [] then v @ [(''q'', q)] else v);
          v = (if 1 <s page then v @ [(''page'', FormatInt page)] else v)
      in path @ ''?'' @ values_encode v)"

section \<open>The index page\<close>

definition flagRows :: "config \<Rightarrow> flag_row list" where
  "flagRows c =
     (let password = (if RedisPassword c = [] then ''(empty)'' else ''***'');
          row = (\<lambda>n v. \<lparr>fr_Name = n, fr_Value = v\<rparr>)
      in [row ''--listen'' (Listen c), row ''--socket-mode'' (SocketMode c),
          row ''--admin-listen'' (AdminListen c), row ''--metrics-listen'' (MetricsListen c),
          row ''--redis-addr'' (RedisAddr c), row ''--redis-password'' password,
          row ''--log-level'' (LogLevel c), row ''--log-format'' (LogFormat c),
          row ''--global-limit'' (FormatInt (GlobalLimit c)), row ''--burst'' (FormatInt (Burst c)),
          row ''--window'' (Window c), row ''--cleanup-interval'' (duration_String (CleanupInterval c)),
          row ''--abuse-ttl'' (duration_String (AbuseTTL c)),
          row ''--abuse-multiplier'' (FormatInt (AbuseMultiplier c)),
          row ''--abuse-transfer-threshold'' (FormatInt (AbuseTransferThreshold c))])"

fun metric_type_String :: "metric_type \<Rightarrow> string" where
  "metric_type_String COUNTER = ''COUNTER''"
| "metric_type_String GAUGE = ''GAUGE''"
| "metric_type_String SUMMARY = ''SUMMARY''"
| "metric_type_String UNTYPED = ''UNTYPED''"
| "metric_type_String HISTOGRAM = ''HISTOGRAM''"
| "metric_type_String GAUGE_HISTOGRAM = ''GAUGE_HISTOGRAM''"

definition formatHistogram :: "('f \<Rightarrow> string) \<Rightarrow> (int64 \<times> 'f) option \<Rightarrow> string" where
  "formatHistogram f6 h =
     (case h of None \<Rightarrow> [] | Some (n, s) \<Rightarrow> ''count='' @ dec_digits (uint n) @ '' sum='' @ f6 s @ ''s'')"

definition formatSummary :: "('f \<Rightarrow> string) \<Rightarrow> (int64 \<times> 'f) option \<Rightarrow> string" where
  "formatSummary f6 h =
     (case h of None \<Rightarrow> [] | Some (n, s) \<Rightarrow> ''count='' @ dec_digits (uint n) @ '' sum='' @ f6 s)"

definition formatMetricValue ::
  "('f \<Rightarrow> string) \<Rightarrow> ('f \<Rightarrow> string) \<Rightarrow> 'f sample \<Rightarrow> metric_type \<Rightarrow> string" where
  "formatMetricValue fl f6 m t =
     (case t of
        COUNTER \<Rightarrow> fl (sm_counter m)
      | GAUGE \<Rightarrow> fl (sm_gauge m)
      | HISTOGRAM \<Rightarrow> formatHistogram f6 (sm_histogram m)
      | SUMMARY \<Rightarrow> formatSummary f6 (sm_summary m)
      | _ \<Rightarrow> ''unsupported: '' @ metric_type_String t)"

definition metric_label :: "(string \<Rightarrow> string) \<Rightarrow> string \<Rightarrow> (string \<times> string) list \<Rightarrow> string" where
  "metric_label quote name labels =
     (if labels = [] then name
      else name @ ''{'' @ join_with '','' (map (\<lambda>(n, l). n @ ''='' @ quote l) labels) @ ''}'')"

definition metricRows :: "'f admin_env \<Rightarrow> metric_row list" where
  "metricRows env =
     (case av_gather env of
        Inl e \<Rightarrow> []
      | Inr mfs \<Rightarrow>
          sort_slice (\<lambda>a b. mr_Name a < mr_Name b)
            (concat (map (\<lambda>mf.
               map (\<lambda>m.
                 \<lparr>mr_Name = metric_label (av_quote env) (mf_name mf) (sm_labels m),
                  mr_Type = metric_type_String (mf_type mf),
                  mr_Value = formatMetricValue (av_float env) (av_float6 env) m (mf_type mf),
                  mr_Help = mf_help mf\<rparr>) (mf_metrics mf)) mfs)))"

definition handleIndex ::
  "admin_server \<Rightarrow> 'r clients \<Rightarrow> 'f admin_env \<Rightarrow> web_request \<Rightarrow> 'r admin_state \<Rightarrow> 'r handled option" where
  "handleIndex sv c env r st =
     (if wr_path r \<noteq> ''/'' then Some (Inr (HttpError 404 ''404 page not found'' None), st)
      else
        (let (redisErr, st1) = on_store (Ping c) st;
             data =
               \<lparr>ix_Title = ''status'', ix_Version = sv_version sv,
                ix_Uptime = duration_String (duration_Truncate (time_Sub (av_now env) (sv_startedAt sv)) second_ns),
                ix_Now = format_datetime (av_now env) @ '' UTC'', ix_RedisOK = (redisErr = None),
                ix_FlagRows = flagRows (sv_cfg sv), ix_MetricRows = metricRows env\<rparr>
         in Some (Inr (Rendered ''index.html'' (IndexPage data)), st1)))"

end
