(* ===== verification/Admin_Tables.thy ===== *)
theory Admin_Tables
  imports Admin
begin

text \<open>
  The tables of the admin pages: the top rows from the counters in memory, and the pages over the
  scanned Redis databases (\<^verbatim>\<open>topKnown\<close>, \<^verbatim>\<open>topUnknown\<close>, \<^verbatim>\<open>handleLimits\<close>, \<^verbatim>\<open>handleAbuse\<close>). \<^verbatim>\<open>sort.Slice\<close>
  is not stable and its algorithm is not specified; \<open>sort_slice\<close> is one sort, and \<open>Admin_Correct\<close>
  shows that the tables do not depend on which.
\<close>

section \<open>Top rows\<close>

definition resolveKnownSort :: "string \<Rightarrow> string" where
  "resolveKnownSort s = (if s = ''total'' \<or> s = ''burst'' then s else ''violations'')"

definition resolveUnknownSort :: "string \<Rightarrow> string" where
  "resolveUnknownSort s = (if s = ''total'' \<or> s = ''burst'' then s else ''abuse'')"

text \<open>Descending by a count, ties by key.\<close>

definition desc_then_key :: "('a \<Rightarrow> int64) \<Rightarrow> ('a \<Rightarrow> string) \<Rightarrow> 'a \<Rightarrow> 'a \<Rightarrow> bool" where
  "desc_then_key cnt key a b = (if cnt a \<noteq> cnt b then cnt b <s cnt a else key a < key b)"

definition known_top_row :: "string \<times> known_counter \<Rightarrow> knownTopRow" where
  "known_top_row kc = (case kc of (k, c) \<Rightarrow>
     \<lparr>ktKey = k, ktTotal = kTotal c, ktBurstHits = kBurstHits c, ktViolationHits = kViolationHits c\<rparr>)"

definition known_less :: "string \<Rightarrow> knownTopRow \<Rightarrow> knownTopRow \<Rightarrow> bool" where
  "known_less sortBy =
     (if sortBy = ''total'' then desc_then_key ktTotal ktKey
      else if sortBy = ''burst'' then desc_then_key ktBurstHits ktKey
      else desc_then_key ktViolationHits ktKey)"

definition topKnown ::
  "((string \<times> known_counter) list \<Rightarrow> (string \<times> known_counter) list) \<Rightarrow> known_map \<Rightarrow> string \<Rightarrow> knownTopRow list" where
  "topKnown order m sortBy =
     (let rows = sort_slice (known_less sortBy) (map known_top_row (KnownMap_Snapshot order m))
      in if topN < length rows then take topN rows else rows)"

definition unknown_top_row :: "string \<Rightarrow> string \<times> unknown_counter \<Rightarrow> unknownTopRow" where
  "unknown_top_row pfx kc = (case kc of (k, c) \<Rightarrow>
     \<lparr>utKey = TrimPrefix k pfx, utTotal = uTotal c, utBurstHits = uBurstHits c, utAbuseHits = uAbuseHits c\<rparr>)"

definition unknown_less :: "string \<Rightarrow> unknownTopRow \<Rightarrow> unknownTopRow \<Rightarrow> bool" where
  "unknown_less sortBy =
     (if sortBy = ''total'' then desc_then_key utTotal utKey
      else if sortBy = ''burst'' then desc_then_key utBurstHits utKey
      else desc_then_key utAbuseHits utKey)"

definition topUnknown ::
  "((string \<times> unknown_counter) list \<Rightarrow> (string \<times> unknown_counter) list) \<Rightarrow> unknown_map
     \<Rightarrow> string \<Rightarrow> string \<Rightarrow> unknownTopRow list" where
  "topUnknown order m pfx sortBy =
     (let rows = sort_slice (unknown_less sortBy)
                   (map (unknown_top_row pfx)
                     (filter (\<lambda>kc. HasPrefix (fst kc) pfx) (UnknownMap_Snapshot order m)))
      in if topN < length rows then take topN rows else rows)"

section \<open>Paging\<close>

text \<open>The page number of a request: \<^verbatim>\<open>Atoi\<close>'s value with its error dropped, at least 1.\<close>

definition page_number :: "web_request \<Rightarrow> int64" where
  "page_number r = (let page = fst (Atoi (wr_query r ''page'')) in if page <s 1 then 1 else page)"

text \<open>The bounds of a page of \<open>n\<close> rows, in wrapping arithmetic, and the page itself.\<close>

definition page_bounds :: "int64 \<Rightarrow> int64 \<Rightarrow> int64 \<times> int64" where
  "page_bounds page n =
     (let from = (page - 1) * pageSize; to = from + pageSize;
          from = (if n <s from then n else from);
          to = (if n <s to then n else to)
      in (from, to))"

definition page_rows :: "int64 \<Rightarrow> 'a list \<Rightarrow> go_panic + 'a list" where
  "page_rows page rows =
     (case page_bounds page (word_of_nat (length rows)) of (from, to) \<Rightarrow> go_slice rows from to)"

definition has_next :: "int64 \<Rightarrow> 'a list \<Rightarrow> bool" where
  "has_next page rows =
     (case page_bounds page (word_of_nat (length rows)) of (from, to) \<Rightarrow> to <s word_of_nat (length rows))"

definition matches :: "string \<Rightarrow> string \<Rightarrow> bool" where
  "matches q key \<longleftrightarrow> q = [] \<or> Contains key q"

section \<open>The limits page\<close>

definition limits_row :: "known_map \<Rightarrow> limit_entry \<Rightarrow> limitsRow" where
  "limits_row m l =
     (let row = \<lparr>lrAPIKey = leAPIKey l, lrLimit = leLimit l, lrCreatedAt = leCreatedAt l,
                 lrTotal = 0, lrWindowsAbove = 0, lrBurstRequests = 0\<rparr>
      in case KnownMap_Get m (leAPIKey l) of
           None \<Rightarrow> row
         | Some c \<Rightarrow> row\<lparr>lrTotal := kTotal c, lrWindowsAbove := kViolationHits c, lrBurstRequests := kBurstHits c\<rparr>)"

definition limits_rows :: "known_map \<Rightarrow> string \<Rightarrow> limit_entry list \<Rightarrow> limitsRow list" where
  "limits_rows m q ls =
     sort_slice (\<lambda>a b. lrAPIKey a < lrAPIKey b)
       (map (limits_row m) (filter (\<lambda>l. matches q (leAPIKey l)) ls))"

text \<open>The last part of the handler, on the rows: the slice is taken before the top rows are read.\<close>

definition handleLimits ::
  "admin_server \<Rightarrow> 'r clients \<Rightarrow> 'f admin_env \<Rightarrow> web_request \<Rightarrow> 'r admin_state \<Rightarrow> 'r handled option" where
  "handleLimits sv c env r st =
     (let q = wr_query r ''q''; page = page_number r; topSort = resolveKnownSort (wr_query r ''topsort'') in
      case ScanLimits c (ad_store st) of
        None \<Rightarrow> None
      | Some (res, s) \<Rightarrow>
          (let st1 = st\<lparr>ad_store := s\<rparr> in
           case res of
             ScanPanic p \<Rightarrow> Some (Inl p, st1)
           | ScanErr err \<Rightarrow> Some (Inr (HttpError 502 ''redis scan failed: '' (Some err)), st1)
           | Scanned ls \<Rightarrow>
               (let rows = limits_rows (ad_known st1) q ls in
                case page_rows page rows of
                  Inl p \<Rightarrow> Some (Inl p, st1)
                | Inr shown \<Rightarrow>
                    Some (Inr (Rendered ''limits.html'' (LimitsPage
                      \<lparr>lp_Title = ''redisDB1 '' @ em_dash @ '' limits'', lp_BasePath = ''/limits'',
                       lp_Rows = shown, lp_Page = page, lp_HasPrev = (1 <s page),
                       lp_HasNext = has_next page rows, lp_Q = q,
                       lp_Total = word_of_nat (length rows), lp_DeleteAction = ''/limits/delete'',
                       lp_PurgeAction = ''/limits/purge'',
                       lp_TopRows = topKnown (av_knownOrder env) (ad_known st1) topSort,
                       lp_TopSort = topSort, lp_KeyHeader = [], lp_CSRFToken = sv_csrfToken sv\<rparr>)), st1))))"

section \<open>The abuse pages\<close>

record 'r abuseConfig =
  ac_template :: string
  ac_title :: string
  ac_scan :: "'r store \<Rightarrow> (abuse_entry list scanned \<times> 'r store) option"
  ac_deleteAction :: string
  ac_purgeAction :: string
  ac_basePath :: string
  ac_counterPrefix :: string
  ac_keyHeader :: string

definition abuse_row :: "abuse_entry \<Rightarrow> abuseRow" where
  "abuse_row e =
     \<lparr>abKey = aeKey e, abFirstSeen = aeFirstSeen e, abLastSeen = aeLastSeen e, abTotal = aeTotalRequests e,
      abBurstHits = aeBurstHits e, abAbuseHits = aeAbuseHits e, abTTL = aeTTL e\<rparr>"

definition abuse_less :: "abuseRow \<Rightarrow> abuseRow \<Rightarrow> bool" where
  "abuse_less a b =
     (if \<not> time_Equal (abLastSeen a) (abLastSeen b) then time_After (abLastSeen a) (abLastSeen b)
      else abKey a < abKey b)"

definition abuse_rows :: "string \<Rightarrow> abuse_entry list \<Rightarrow> abuseRow list" where
  "abuse_rows q es = sort_slice abuse_less (map abuse_row (filter (\<lambda>e. matches q (aeKey e)) es))"

definition handleAbuse ::
  "admin_server \<Rightarrow> 'r abuseConfig \<Rightarrow> 'f admin_env \<Rightarrow> web_request \<Rightarrow> 'r admin_state \<Rightarrow> 'r handled option" where
  "handleAbuse sv cfg env r st =
     (let q = wr_query r ''q''; page = page_number r; topSort = resolveUnknownSort (wr_query r ''topsort'') in
      case ac_scan cfg (ad_store st) of
        None \<Rightarrow> None
      | Some (res, s) \<Rightarrow>
          (let st1 = st\<lparr>ad_store := s\<rparr> in
           case res of
             ScanPanic p \<Rightarrow> Some (Inl p, st1)
           | ScanErr err \<Rightarrow> Some (Inr (HttpError 502 ''redis scan failed: '' (Some err)), st1)
           | Scanned es \<Rightarrow>
               (let rows = abuse_rows q es in
                case page_rows page rows of
                  Inl p \<Rightarrow> Some (Inl p, st1)
                | Inr shown \<Rightarrow>
                    Some (Inr (Rendered (ac_template cfg) (AbusePage
                      \<lparr>lp_Title = ac_title cfg, lp_BasePath = ac_basePath cfg,
                       lp_Rows = shown, lp_Page = page, lp_HasPrev = (1 <s page),
                       lp_HasNext = has_next page rows, lp_Q = q,
                       lp_Total = word_of_nat (length rows), lp_DeleteAction = ac_deleteAction cfg,
                       lp_PurgeAction = ac_purgeAction cfg,
                       lp_TopRows = topUnknown (av_unknownOrder env) (ad_unknown st1) (ac_counterPrefix cfg) topSort,
                       lp_TopSort = topSort, lp_KeyHeader = ac_keyHeader cfg,
                       lp_CSRFToken = sv_csrfToken sv\<rparr>)), st1))))"

definition handleAbuseKeys ::
  "admin_server \<Rightarrow> 'r clients \<Rightarrow> 'f admin_env \<Rightarrow> web_request \<Rightarrow> 'r admin_state \<Rightarrow> 'r handled option" where
  "handleAbuseKeys sv c env r st = handleAbuse sv
     \<lparr>ac_template = ''abuse_keys.html'', ac_title = ''redisDB2 '' @ em_dash @ '' abusive api keys'',
      ac_scan = ScanAbuseKeys c, ac_deleteAction = ''/abuse/keys/delete'',
      ac_purgeAction = ''/abuse/keys/purge'', ac_basePath = ''/abuse/keys'',
      ac_counterPrefix = UnknownKeyPrefix, ac_keyHeader = ''api_key''\<rparr> env r st"

definition handleAbuseIPs ::
  "admin_server \<Rightarrow> 'r clients \<Rightarrow> 'f admin_env \<Rightarrow> web_request \<Rightarrow> 'r admin_state \<Rightarrow> 'r handled option" where
  "handleAbuseIPs sv c env r st = handleAbuse sv
     \<lparr>ac_template = ''abuse_ips.html'', ac_title = ''redisDB3 '' @ em_dash @ '' abusive IPs'',
      ac_scan = ScanAbuseIPs c, ac_deleteAction = ''/abuse/ips/delete'',
      ac_purgeAction = ''/abuse/ips/purge'', ac_basePath = ''/abuse/ips'',
      ac_counterPrefix = UnknownIPPrefix, ac_keyHeader = ''IP''\<rparr> env r st"

end
