(* ===== verification/Admin_Actions.thy ===== *)
theory Admin_Actions
  imports Admin_Tables
begin

text \<open>
  The state-changing admin handlers (\<^verbatim>\<open>handleDelete\<close>, \<^verbatim>\<open>handlePurge\<close>) and the routing of the admin
  server, with the path cleaning of \<^verbatim>\<open>http.ServeMux\<close>.
\<close>

section \<open>Delete and purge\<close>

text \<open>\<open>fn\<close> is the store operation.\<close>

definition handleDelete ::
  "admin_server \<Rightarrow> string \<Rightarrow> string \<Rightarrow> (string list \<Rightarrow> 'r store \<Rightarrow> (go_err + int64) \<times> 'r store)
     \<Rightarrow> web_request \<Rightarrow> 'r admin_state \<Rightarrow> 'r handled option" where
  "handleDelete sv label redirectTo fn r st =
     (if wr_method r \<noteq> ''POST'' then Some (Inr (HttpError 405 ''method not allowed'' None), st)
      else
        (case wr_postForm r of
           Inl err \<Rightarrow> Some (Inr (HttpError 400 ''bad form: '' (Some err)), st)
         | Inr form \<Rightarrow>
             (case checkCSRF sv r st of
                (Some refused, st1) \<Rightarrow> Some (Inr refused, st1)
              | (None, st1) \<Rightarrow>
                  (let keys = form_values form ''keys'' in
                   if keys = [] then Some (Inr (Redirect redirectTo 303), st1)
                   else
                     (case on_store (fn keys) st1 of
                        (Inl err, st2) \<Rightarrow>
                          Some (Inr (HttpError 502 ''delete failed: '' (Some err)), ad_logs (AdminDeleteFailed label err) st2)
                      | (Inr deleted, st2) \<Rightarrow>
                          Some (Inr (Redirect redirectTo 303), ad_logs (AdminDeleted label (length keys) deleted) st2))))))"

definition handlePurge ::
  "admin_server \<Rightarrow> string \<Rightarrow> string \<Rightarrow> string \<Rightarrow> ('r store \<Rightarrow> go_err option \<times> 'r store)
     \<Rightarrow> web_request \<Rightarrow> 'r admin_state \<Rightarrow> 'r handled option" where
  "handlePurge sv label redirectTo action fn r st =
     (if wr_method r \<noteq> ''POST'' then Some (Inr (HttpError 405 ''method not allowed'' None), st)
      else
        (case wr_postForm r of
           Inl err \<Rightarrow> Some (Inr (HttpError 400 ''bad form: '' (Some err)), st)
         | Inr form \<Rightarrow>
             (case checkCSRF sv r st of
                (Some refused, st1) \<Rightarrow> Some (Inr refused, st1)
              | (None, st1) \<Rightarrow>
                  (if PostFormValue r ''confirm'' \<noteq> ''yes'' then
                     Some (Inr (Rendered ''confirm.html'' (ConfirmPage
                       \<lparr>cd_Title = ''Purge '' @ label @ ''?'',
                        cd_Message = ''Permanently delete ALL entries from '' @ label @ ''. This cannot be undone.'',
                        cd_Action = action, cd_BackTo = redirectTo,
                        cd_ConfirmLabel = ''Yes, purge '' @ label, cd_CSRFToken = sv_csrfToken sv\<rparr>)), st1)
                   else
                     (case on_store fn st1 of
                        (Some err, st2) \<Rightarrow>
                          Some (Inr (HttpError 502 ''purge failed: '' (Some err)), ad_logs (AdminPurgeFailed label err) st2)
                      | (None, st2) \<Rightarrow>
                          Some (Inr (Redirect redirectTo 303), ad_logs (AdminPurged label) st2))))))"

definition handleLimitsDelete ::
  "admin_server \<Rightarrow> 'r clients \<Rightarrow> web_request \<Rightarrow> 'r admin_state \<Rightarrow> 'r handled option" where
  "handleLimitsDelete sv c r st = handleDelete sv ''redisDB1 limit'' ''/limits'' (DeleteLimits c) r st"

definition handleLimitsPurge ::
  "admin_server \<Rightarrow> 'r clients \<Rightarrow> web_request \<Rightarrow> 'r admin_state \<Rightarrow> 'r handled option" where
  "handleLimitsPurge sv c r st = handlePurge sv ''redisDB1'' ''/limits'' ''/limits/purge'' (PurgeLimits c) r st"

definition handleAbuseKeysDelete ::
  "admin_server \<Rightarrow> 'r clients \<Rightarrow> web_request \<Rightarrow> 'r admin_state \<Rightarrow> 'r handled option" where
  "handleAbuseKeysDelete sv c r st =
     handleDelete sv ''redisDB2 abuse-key'' ''/abuse/keys'' (DeleteAbuseKeys c) r st"

definition handleAbuseKeysPurge ::
  "admin_server \<Rightarrow> 'r clients \<Rightarrow> web_request \<Rightarrow> 'r admin_state \<Rightarrow> 'r handled option" where
  "handleAbuseKeysPurge sv c r st =
     handlePurge sv ''redisDB2'' ''/abuse/keys'' ''/abuse/keys/purge'' (PurgeAbuseKeys c) r st"

definition handleAbuseIPsDelete ::
  "admin_server \<Rightarrow> 'r clients \<Rightarrow> web_request \<Rightarrow> 'r admin_state \<Rightarrow> 'r handled option" where
  "handleAbuseIPsDelete sv c r st =
     handleDelete sv ''redisDB3 abuse-ip'' ''/abuse/ips'' (DeleteAbuseIPs c) r st"

definition handleAbuseIPsPurge ::
  "admin_server \<Rightarrow> 'r clients \<Rightarrow> web_request \<Rightarrow> 'r admin_state \<Rightarrow> 'r handled option" where
  "handleAbuseIPsPurge sv c r st =
     handlePurge sv ''redisDB3'' ''/abuse/ips'' ''/abuse/ips/purge'' (PurgeAbuseIPs c) r st"

section \<open>Routing\<close>

text \<open>\<^verbatim>\<open>cleanPath\<close>: a rooted path without empty, \<^verbatim>\<open>.\<close> and \<^verbatim>\<open>..\<close> elements, its trailing slash kept.\<close>

fun clean_elems :: "string list \<Rightarrow> string list \<Rightarrow> string list" where
  "clean_elems acc [] = rev acc"
| "clean_elems acc (e # es) =
     (if e = [] \<or> e = ''.'' then clean_elems acc es
      else if e = ''..'' then clean_elems (drop 1 acc) es
      else clean_elems (e # acc) es)"

definition cleanPath :: "string \<Rightarrow> string" where
  "cleanPath p =
     (let p' = (if p = [] then ''/'' else if hd p = CHR ''/'' then p else CHR ''/'' # p);
          np = CHR ''/'' # join_with ''/'' (clean_elems [] (split_on (CHR ''/'') p'))
      in if last p' = CHR ''/'' \<and> np \<noteq> ''/'' then np @ ''/'' else np)"

text \<open>The mux of the Go version in \<^verbatim>\<open>go.mod\<close> (1.21) redirects a request whose decoded path is unclean,
  unless it is a \<^verbatim>\<open>CONNECT\<close> request, whose path it takes as it is.\<close>

definition mux_redirects :: "string \<Rightarrow> string \<Rightarrow> bool" where
  "mux_redirects verb p \<longleftrightarrow> verb \<noteq> ''CONNECT'' \<and> cleanPath p \<noteq> p"

text \<open>Requests that are not redirected go to the handler registered for exactly their path, or to the one
  for \<^verbatim>\<open>/\<close>. The redirect names the path before \<^verbatim>\<open>url.URL\<close> escapes it. (The request target \<^verbatim>\<open>*\<close>, which
  is no path, is answered inside net/http.)\<close>

definition Routes ::
  "admin_server \<Rightarrow> 'r clients \<Rightarrow> 'f admin_env \<Rightarrow> web_request \<Rightarrow> 'r admin_state \<Rightarrow> 'r handled option" where
  "Routes sv c env r st =
     (let p = wr_path r in
      if mux_redirects (wr_method r) p then
        Some (Inr (Redirect (cleanPath p @ (if wr_rawQuery r = [] then [] else ''?'' @ wr_rawQuery r)) 301), st)
      else if p = ''/limits'' then handleLimits sv c env r st
      else if p = ''/limits/delete'' then handleLimitsDelete sv c r st
      else if p = ''/limits/purge'' then handleLimitsPurge sv c r st
      else if p = ''/abuse/keys'' then handleAbuseKeys sv c env r st
      else if p = ''/abuse/keys/delete'' then handleAbuseKeysDelete sv c r st
      else if p = ''/abuse/keys/purge'' then handleAbuseKeysPurge sv c r st
      else if p = ''/abuse/ips'' then handleAbuseIPs sv c env r st
      else if p = ''/abuse/ips/delete'' then handleAbuseIPsDelete sv c r st
      else if p = ''/abuse/ips/purge'' then handleAbuseIPsPurge sv c r st
      else handleIndex sv c env r st)"

lemma cleanPath_samples:
  "cleanPath ''/limits'' = ''/limits''" "cleanPath ''//limits/../abuse/./keys/'' = ''/abuse/keys/''"
  "cleanPath ''/..'' = ''/''" "cleanPath [] = ''/''"
  by code_simp+

end
