(* ===== verification/Service.thy ===== *)
theory Service
  imports Handler_Correct Cleanup_Correct Admin_Actions
begin

text \<open>
  \<^verbatim>\<open>cmd/api-ratelimiter/main.go\<close>: start-up, the listener, the probes, the gauge updates, and the life
  of the process up to its shutdown. The operating system (\<open>os\<close>) and the constructor of Redis
  clients are arguments. What the goroutines of \<^verbatim>\<open>run\<close> and the servers do is a sequence of events,
  each a handler, a tick or a statement of the main goroutine run to its end; a cleanup cycle
  carries what happens between its own steps (\<open>cy_env\<close>). \<open>run_event\<close> says what an event does, or that
  it cannot happen there.
\<close>

section \<open>Logger\<close>

datatype log_level = LevelDebug | LevelInfo | LevelWarn | LevelError

text \<open>\<^verbatim>\<open>slog\<close>'s levels are numbers, and a handler passes the records from its own level on.\<close>

fun level_num :: "log_level \<Rightarrow> int" where
  "level_num LevelDebug = - 4"
| "level_num LevelInfo = 0"
| "level_num LevelWarn = 4"
| "level_num LevelError = 8"

lemma level_num_inj: "level_num a = level_num b \<Longrightarrow> a = b"
  by (cases a; cases b) simp_all

instantiation log_level :: linorder
begin

definition less_eq_log_level :: "log_level \<Rightarrow> log_level \<Rightarrow> bool" where
  "a \<le> b \<longleftrightarrow> level_num a \<le> level_num b"

definition less_log_level :: "log_level \<Rightarrow> log_level \<Rightarrow> bool" where
  "a < b \<longleftrightarrow> level_num a < level_num b"

instance
  by standard (auto simp: less_eq_log_level_def less_log_level_def dest: level_num_inj)

end

record slogger =
  lg_level :: log_level
  lg_text :: bool

text \<open>The zero value of \<^verbatim>\<open>slog.Level\<close> is info.\<close>

definition newLogger :: "config \<Rightarrow> slogger" where
  "newLogger cfg =
     \<lparr>lg_level = (if LogLevel cfg = ''debug'' then LevelDebug
                  else if LogLevel cfg = ''info'' then LevelInfo
                  else if LogLevel cfg = ''warn'' then LevelWarn
                  else if LogLevel cfg = ''error'' then LevelError
                  else LevelInfo),
      lg_text = (LogFormat cfg = ''text'')\<rparr>"

definition log_enabled :: "slogger \<Rightarrow> log_level \<Rightarrow> bool" where
  "log_enabled lg lv \<longleftrightarrow> lg_level lg \<le> lv"

text \<open>Whatever the configuration, errors are logged; the level cuts off where it says.\<close>

lemma errors_logged: "log_enabled (newLogger cfg) LevelError"
  by (cases "lg_level (newLogger cfg)") (simp_all add: log_enabled_def less_eq_log_level_def)

lemma newLogger_level:
  shows "log_enabled (newLogger cfg) LevelDebug \<longleftrightarrow> LogLevel cfg = ''debug''"
    and "log_enabled (newLogger cfg) LevelWarn \<longleftrightarrow> LogLevel cfg \<noteq> ''error''"
  by (auto simp: log_enabled_def less_eq_log_level_def newLogger_def)

section \<open>The listener\<close>

text \<open>What \<^verbatim>\<open>listen\<close> uses of the operating system, over its state \<open>'w\<close>; \<open>'l\<close> is a listener.\<close>

record ('w, 'l) os =
  os_stat :: "string \<Rightarrow> 'w \<Rightarrow> go_err option \<times> 'w"
  os_remove :: "string \<Rightarrow> 'w \<Rightarrow> go_err option \<times> 'w"
  os_listen :: "string \<Rightarrow> string \<Rightarrow> 'w \<Rightarrow> (go_err + 'l) \<times> 'w"
  os_chmod :: "string \<Rightarrow> int \<Rightarrow> 'w \<Rightarrow> go_err option \<times> 'w"
  os_close :: "'l \<Rightarrow> 'w \<Rightarrow> 'w"

datatype listen_err = StaleSocket go_err | OsError go_err

definition listen :: "('w, 'l) os \<Rightarrow> string \<Rightarrow> int \<Rightarrow> 'w \<Rightarrow> (listen_err + 'l) \<times> 'w" where
  "listen os spec socketMode w =
     (if HasPrefix spec ''unix:'' then
        (let path = TrimPrefix spec ''unix:'';
             (missing, w1) = os_stat os path w;
             (rerr, w2) = (if missing = None then os_remove os path w1 else (None, w1))
         in case rerr of
              Some e \<Rightarrow> (Inl (StaleSocket e), w2)
            | None \<Rightarrow>
                (case os_listen os ''unix'' path w2 of
                   (Inl e, w3) \<Rightarrow> (Inl (OsError e), w3)
                 | (Inr ln, w3) \<Rightarrow>
                     (case os_chmod os path socketMode w3 of
                        (Some e, w4) \<Rightarrow> (Inl (OsError e), os_close os ln w4)
                      | (None, w4) \<Rightarrow> (Inr ln, w4))))
      else
        (case os_listen os ''tcp'' spec w of
           (Inl e, w1) \<Rightarrow> (Inl (OsError e), w1)
         | (Inr ln, w1) \<Rightarrow> (Inr ln, w1)))"

section \<open>The service's state\<close>

datatype server = CheckServer | AdminServer | MetricsServer

text \<open>The lines of \<^verbatim>\<open>run\<close> and its goroutines; \<open>AdminPanic\<close> is the line net/http's server writes when it
  recovers a panic of an admin handler and closes the connection.\<close>

datatype service_log =
    DbsizeFailed go_err
  | ServerFailed server go_err
  | ShutdownSignal
  | ShutdownFailed server go_err
  | FinalCleanup
  | ServiceStopped
  | AdminPanic go_panic

text \<open>What the goroutines share.\<close>

record 'r service =
  se_known :: known_map
  se_unknown :: unknown_map
  se_metrics :: metrics
  se_store :: "'r store"
  se_checkLog :: "check_log list"
  se_cleanupLog :: "cleanup_log list"
  se_adminLog :: "admin_log list"
  se_log :: "service_log list"

text \<open>The parts each component works on.\<close>

definition as_lim :: "'r service \<Rightarrow> 'r store lim_state" where
  "as_lim st = \<lparr>ls_known = se_known st, ls_unknown = se_unknown st, ls_metrics = se_metrics st, ls_store = se_store st\<rparr>"

definition put_lim :: "'r store lim_state \<Rightarrow> 'r service \<Rightarrow> 'r service" where
  "put_lim l st = st\<lparr>se_known := ls_known l, se_unknown := ls_unknown l, se_metrics := ls_metrics l, se_store := ls_store l\<rparr>"

definition as_cl :: "'r service \<Rightarrow> 'r store cl_state" where
  "as_cl st = \<lparr>cl_known = se_known st, cl_unknown = se_unknown st, cl_metrics = se_metrics st,
     cl_store = se_store st, cl_log = se_cleanupLog st\<rparr>"

definition put_cl :: "'r store cl_state \<Rightarrow> 'r service \<Rightarrow> 'r service" where
  "put_cl c st = st\<lparr>se_known := cl_known c, se_unknown := cl_unknown c, se_metrics := cl_metrics c,
     se_store := cl_store c, se_cleanupLog := cl_log c\<rparr>"

definition as_admin :: "'r service \<Rightarrow> 'r admin_state" where
  "as_admin st = \<lparr>ad_known = se_known st, ad_unknown = se_unknown st, ad_store = se_store st, ad_log = se_adminLog st\<rparr>"

definition put_admin :: "'r admin_state \<Rightarrow> 'r service \<Rightarrow> 'r service" where
  "put_admin a st = st\<lparr>se_known := ad_known a, se_unknown := ad_unknown a, se_store := ad_store a, se_adminLog := ad_log a\<rparr>"

definition se_logs :: "service_log \<Rightarrow> 'r service \<Rightarrow> 'r service" where
  "se_logs e st = st\<lparr>se_log := se_log st @ [e]\<rparr>"

section \<open>Start-up\<close>

text \<open>What \<^verbatim>\<open>run\<close> builds and does not change.\<close>

record 'r program =
  pg_cfg :: config
  pg_logger :: slogger
  pg_clients :: "'r clients"
  pg_limiter :: limiter
  pg_cleanup :: cleanup
  pg_admin :: admin_server

text \<open>\<open>mk\<close> makes the client for an address, a password and a database number; \<open>rand\<close> are the token's
  random bytes; \<open>r\<close> is the world behind Redis.\<close>

definition build ::
  "config \<Rightarrow> (string \<Rightarrow> string \<Rightarrow> nat \<Rightarrow> 'r redis_client) \<Rightarrow> go_time \<Rightarrow> string \<Rightarrow> (go_err + int list) \<Rightarrow> 'r
     \<Rightarrow> go_err + 'r program \<times> 'r service" where
  "build cfg mk startedAt version rand r =
     (let (clients, rdb) = store_New (mk (RedisAddr cfg) (RedisPassword cfg)) r;
          known = NewKnownMap (WindowSeconds cfg);
          unknown = NewUnknownMap (WindowSeconds cfg);
          m = fst metrics_New;
          lim = limiter_New (GlobalLimit cfg) (Burst cfg) (AbuseMultiplier cfg);
          cl = cleanup_New (AbuseTransferThreshold cfg) (AbuseTTL cfg)
      in case admin_New cfg startedAt version rand of
           Inl err \<Rightarrow> Inl err
         | Inr adminSrv \<Rightarrow>
             Inr (\<lparr>pg_cfg = cfg, pg_logger = newLogger cfg, pg_clients = clients, pg_limiter = lim,
                   pg_cleanup = cl, pg_admin = adminSrv\<rparr>,
                  \<lparr>se_known = known, se_unknown = unknown, se_metrics = m, se_store = rdb,
                   se_checkLog = [], se_cleanupLog = [], se_adminLog = [], se_log = []\<rparr>))"

datatype run_err = ConfigFailed config_err | AdminInitFailed go_err | ListenFailed string listen_err

text \<open>\<^verbatim>\<open>run\<close> up to the point where it serves: the error it returns, or the running service and its
  listener. \<open>cfg\<close> is the configuration pflag filled.\<close>

definition run_start ::
  "('w, 'l) os \<Rightarrow> config \<Rightarrow> (string \<Rightarrow> string \<Rightarrow> nat \<Rightarrow> 'r redis_client) \<Rightarrow> go_time \<Rightarrow> string
     \<Rightarrow> (go_err + int list) \<Rightarrow> 'r \<Rightarrow> 'w \<Rightarrow> (run_err + 'r program \<times> 'r service \<times> 'l) \<times> 'w" where
  "run_start os cfg mk startedAt version rand r w =
     (case Validate cfg of
        Some err \<Rightarrow> (Inl (ConfigFailed err), w)
      | None \<Rightarrow>
          (case build cfg mk startedAt version rand r of
             Inl err \<Rightarrow> (Inl (AdminInitFailed err), w)
           | Inr (p, st) \<Rightarrow>
               (let socketMode = (case SocketModeParsed cfg of Inl _ \<Rightarrow> 0 | Inr v \<Rightarrow> v) in
                case listen os (Listen cfg) socketMode w of
                  (Inl err, w1) \<Rightarrow> (Inl (ListenFailed (Listen cfg) err), w1)
                | (Inr ln, w1) \<Rightarrow> (Inr (p, st, ln), w1))))"

section \<open>Handlers\<close>

text \<open>\<^verbatim>\<open>routes\<close>: the check server knows one path. The status of the response.\<close>

definition routes ::
  "'r program \<Rightarrow> string \<Rightarrow> go_time \<Rightarrow> go_time \<Rightarrow> go_time \<Rightarrow> http_request \<Rightarrow> 'r service \<Rightarrow> nat \<times> 'r service" where
  "routes p path start now fin r st =
     (if mux_redirects (hr_method r) path then (301, st)
      else if path = ''/check'' then
        (let res = check_request (pg_limiter p) (LookupLimit (pg_clients p)) start now fin r (as_lim st)
         in (response_status res,
             (put_lim (snd (snd res)) st)\<lparr>se_checkLog := se_checkLog st @ fst (snd res)\<rparr>))
      else (404, st))"

definition healthz :: "admin_page response" where "healthz = BareStatus 200"

definition readyz :: "'r program \<Rightarrow> bool \<Rightarrow> 'r service \<Rightarrow> admin_page response \<times> 'r service" where
  "readyz p shuttingDown st =
     (if shuttingDown then (HttpError 503 ''shutting down'' None, st)
      else
        (case Ping (pg_clients p) (se_store st) of
           (Some err, s) \<Rightarrow> (HttpError 503 ''redis unreachable: '' (Some err), st\<lparr>se_store := s\<rparr>)
         | (None, s) \<Rightarrow> (BareStatus 200, st\<lparr>se_store := s\<rparr>)))"

text \<open>The admin server's mux: the probes beside the admin pages. (A redirect is the same from this mux and
  from the one of \<^verbatim>\<open>Routes\<close>.)\<close>

definition adminMux ::
  "'r program \<Rightarrow> bool \<Rightarrow> 'f admin_env \<Rightarrow> web_request \<Rightarrow> 'r service
     \<Rightarrow> ((go_panic + admin_page response) \<times> 'r service) option" where
  "adminMux p shuttingDown env r st =
     (let path = wr_path r; redirected = mux_redirects (wr_method r) path in
      if \<not> redirected \<and> path = ''/healthz'' then Some (Inr healthz, st)
      else if \<not> redirected \<and> path = ''/readyz'' then
        (case readyz p shuttingDown st of (res, st1) \<Rightarrow> Some (Inr res, st1))
      else
        (case Routes (pg_admin p) (pg_clients p) env r (as_admin st) of
           None \<Rightarrow> None
         | Some (res, a) \<Rightarrow> Some (res, put_admin a st)))"

definition updateRedisGauges :: "'r clients \<Rightarrow> 'r service \<Rightarrow> 'r service" where
  "updateRedisGauges c st =
     (case DBSize c (se_store st) of
        (Inl err, s) \<Rightarrow>
          se_logs (DbsizeFailed err) (st\<lparr>se_store := s, se_metrics := inc_redis_errors (se_metrics st)\<rparr>)
      | (Inr sizes, s) \<Rightarrow> st\<lparr>se_store := s, se_metrics := set_redis_gauges sizes (se_metrics st)\<rparr>)"

section \<open>The life of the process\<close>

text \<open>Where the main goroutine is. A panic of the final cleanup, which nothing recovers, ends the
  process.\<close>

datatype phase = Serving | Signalled | CheckClosed | Flushed | Cancelled | Stopped | Crashed

text \<open>A server: whether its \<^verbatim>\<open>Serve\<close> goroutine runs, whether requests may still be in its handlers, whether
  \<^verbatim>\<open>Shutdown\<close> was called and whether that call returned.\<close>

record server_state =
  sr_serving :: bool
  sr_conns :: bool
  sr_down :: bool
  sr_returned :: bool

definition server_up :: server_state where
  "server_up = \<lparr>sr_serving = True, sr_conns = True, sr_down = False, sr_returned = False\<rparr>"

text \<open>The call of \<^verbatim>\<open>Shutdown\<close> makes \<^verbatim>\<open>Serve\<close> return, while requests may still be running; when it returns
  without an error, the last of them has ended.\<close>

definition call_shutdown :: "server_state \<Rightarrow> server_state" where
  "call_shutdown sr = sr\<lparr>sr_serving := False, sr_down := True\<rparr>"

definition server_shutdown :: "go_err option \<Rightarrow> server_state \<Rightarrow> server_state" where
  "server_shutdown err sr = sr\<lparr>sr_conns := (sr_conns sr \<and> err \<noteq> None), sr_returned := True\<rparr>"

record 'r running =
  ru_phase :: phase
  ru_shuttingDown :: bool
  ru_check :: server_state
  ru_admin :: server_state
  ru_metrics :: server_state
  ru_cleanupLoop :: bool
  ru_gaugeLoop :: bool
  ru_service :: "'r service"

definition boot :: "'r service \<Rightarrow> 'r running" where
  "boot st =
     \<lparr>ru_phase = Serving, ru_shuttingDown = False, ru_check = server_up, ru_admin = server_up,
      ru_metrics = server_up, ru_cleanupLoop = True, ru_gaugeLoop = True, ru_service = st\<rparr>"

text \<open>The events: requests (path and clock readings with a check request), the gauge ticker, the cleanup
  ticker, a server that failed, the loops noticing the cancelled context, and the statements of the
  main goroutine from the signal on. \<open>CallShutdown\<close> is the call of a server's \<^verbatim>\<open>Shutdown\<close>,
  \<open>ShutdownCheck\<close> and \<open>ShutdownOther\<close> are its return with its error: main waits for the check server's,
  the other two run in goroutines of their own, which nothing waits for.\<close>

datatype ('r, 'f) event =
    CheckRequest string go_time go_time go_time http_request
  | AdminRequest "'f admin_env" web_request
  | GaugeTick
  | CleanupTick "'r store cycle"
  | ServerFails server go_err
  | GaugeExit
  | CleanupExit
  | Signal
  | CallShutdown server
  | ShutdownCheck "go_err option"
  | ShutdownOther server "go_err option"
  | FinalRun "'r store cycle"
  | CancelRoot
  | Exit

definition with_service :: "('r service \<Rightarrow> 'r service) \<Rightarrow> 'r running \<Rightarrow> 'r running" where
  "with_service f s = s\<lparr>ru_service := f (ru_service s)\<rparr>"

definition log_shutdown :: "server \<Rightarrow> go_err option \<Rightarrow> 'r running \<Rightarrow> 'r running" where
  "log_shutdown srv err s =
     (case err of None \<Rightarrow> s | Some e \<Rightarrow> with_service (se_logs (ShutdownFailed srv e)) s)"

definition final_run :: "'r program \<Rightarrow> 'r store cycle \<Rightarrow> 'r running \<Rightarrow> 'r running" where
  "final_run p cy s =
     (let st = se_logs FinalCleanup (ru_service s) in
      case cleanup_Run (store_ops (pg_clients p)) (pg_cleanup p) cy (as_cl st) of
        (Some pan, c) \<Rightarrow> s\<lparr>ru_service := put_cl c st, ru_phase := Crashed\<rparr>
      | (None, c) \<Rightarrow> s\<lparr>ru_service := put_cl c st, ru_phase := Flushed\<rparr>)"

fun server_fails :: "server \<Rightarrow> 'r running \<Rightarrow> 'r running option" where
  "server_fails CheckServer s =
     (if sr_serving (ru_check s) then Some (s\<lparr>ru_check := (ru_check s)\<lparr>sr_serving := False\<rparr>\<rparr>) else None)"
| "server_fails AdminServer s =
     (if sr_serving (ru_admin s) then Some (s\<lparr>ru_admin := (ru_admin s)\<lparr>sr_serving := False\<rparr>\<rparr>) else None)"
| "server_fails MetricsServer s =
     (if sr_serving (ru_metrics s) then Some (s\<lparr>ru_metrics := (ru_metrics s)\<lparr>sr_serving := False\<rparr>\<rparr>) else None)"

definition goroutines_done :: "'r running \<Rightarrow> bool" where
  "goroutines_done s \<longleftrightarrow>
     \<not> sr_serving (ru_check s) \<and> \<not> sr_serving (ru_admin s) \<and> \<not> sr_serving (ru_metrics s)
     \<and> \<not> ru_cleanupLoop s \<and> \<not> ru_gaugeLoop s"

fun run_event :: "'r program \<Rightarrow> ('r, 'f) event \<Rightarrow> 'r running \<Rightarrow> 'r running option" where
  "run_event p (CheckRequest path start now fin r) s =
     (if ru_phase s \<in> {Stopped, Crashed} \<or> \<not> sr_conns (ru_check s) then None
      else Some (with_service (\<lambda>st. snd (routes p path start now fin r st)) s))"
| "run_event p (AdminRequest env r) s =
     (if ru_phase s \<in> {Stopped, Crashed} \<or> \<not> sr_conns (ru_admin s) then None
      else (case adminMux p (ru_shuttingDown s) env r (ru_service s) of
              None \<Rightarrow> None
            | Some (Inl pan, st) \<Rightarrow> Some (s\<lparr>ru_service := se_logs (AdminPanic pan) st\<rparr>)
            | Some (Inr res, st) \<Rightarrow> Some (s\<lparr>ru_service := st\<rparr>)))"
| "run_event p GaugeTick s =
     (if ru_phase s \<in> {Stopped, Crashed} \<or> \<not> ru_gaugeLoop s then None
      else Some (with_service (updateRedisGauges (pg_clients p)) s))"
| "run_event p (CleanupTick cy) s =
     (if ru_phase s \<in> {Stopped, Crashed} \<or> \<not> ru_cleanupLoop s then None
      else Some (with_service (\<lambda>st.
             put_cl (loop_tick (store_ops (pg_clients p)) (pg_cleanup p) cy (as_cl st)) st) s))"
| "run_event p (ServerFails srv err) s =
     (if ru_phase s \<in> {Stopped, Crashed} then None
      else map_option (with_service (se_logs (ServerFailed srv err))) (server_fails srv s))"
| "run_event p GaugeExit s =
     (if ru_phase s \<noteq> Cancelled \<or> \<not> ru_gaugeLoop s then None else Some (s\<lparr>ru_gaugeLoop := False\<rparr>))"
| "run_event p CleanupExit s =
     (if ru_phase s \<noteq> Cancelled \<or> \<not> ru_cleanupLoop s then None else Some (s\<lparr>ru_cleanupLoop := False\<rparr>))"
| "run_event p Signal s =
     (if ru_phase s \<noteq> Serving then None
      else Some (with_service (se_logs ShutdownSignal) (s\<lparr>ru_phase := Signalled, ru_shuttingDown := True\<rparr>)))"
| "run_event p (CallShutdown srv) s =
     (case srv of
        CheckServer \<Rightarrow>
          (if ru_phase s \<noteq> Signalled \<or> sr_down (ru_check s) then None
           else Some (s\<lparr>ru_check := call_shutdown (ru_check s)\<rparr>))
      | AdminServer \<Rightarrow>
          (if ru_phase s \<notin> {CheckClosed, Flushed, Cancelled} \<or> sr_down (ru_admin s) then None
           else Some (s\<lparr>ru_admin := call_shutdown (ru_admin s)\<rparr>))
      | MetricsServer \<Rightarrow>
          (if ru_phase s \<notin> {CheckClosed, Flushed, Cancelled} \<or> sr_down (ru_metrics s) then None
           else Some (s\<lparr>ru_metrics := call_shutdown (ru_metrics s)\<rparr>)))"
| "run_event p (ShutdownCheck err) s =
     (if ru_phase s \<noteq> Signalled \<or> \<not> sr_down (ru_check s) then None
      else Some (log_shutdown CheckServer err
             (s\<lparr>ru_phase := CheckClosed, ru_check := server_shutdown err (ru_check s)\<rparr>)))"
| "run_event p (ShutdownOther srv err) s =
     (if ru_phase s \<notin> {CheckClosed, Flushed, Cancelled} then None
      else (case srv of
              AdminServer \<Rightarrow>
                (if \<not> sr_down (ru_admin s) \<or> sr_returned (ru_admin s) then None
                 else Some (log_shutdown srv err (s\<lparr>ru_admin := server_shutdown err (ru_admin s)\<rparr>)))
            | MetricsServer \<Rightarrow>
                (if \<not> sr_down (ru_metrics s) \<or> sr_returned (ru_metrics s) then None
                 else Some (log_shutdown srv err (s\<lparr>ru_metrics := server_shutdown err (ru_metrics s)\<rparr>)))
            | CheckServer \<Rightarrow> None))"
| "run_event p (FinalRun cy) s = (if ru_phase s \<noteq> CheckClosed then None else Some (final_run p cy s))"
| "run_event p CancelRoot s = (if ru_phase s \<noteq> Flushed then None else Some (s\<lparr>ru_phase := Cancelled\<rparr>))"
| "run_event p Exit s =
     (if ru_phase s \<noteq> Cancelled \<or> \<not> goroutines_done s then None
      else Some (with_service (se_logs ServiceStopped) (s\<lparr>ru_phase := Stopped\<rparr>)))"

text \<open>A run of the process: its events in order.\<close>

fun run_events :: "'r program \<Rightarrow> ('r, 'f) event list \<Rightarrow> 'r running \<Rightarrow> 'r running option" where
  "run_events p [] s = Some s"
| "run_events p (e # es) s = (case run_event p e s of None \<Rightarrow> None | Some s' \<Rightarrow> run_events p es s')"

end
