(* ===== verification/Admin_Correct.thy ===== *)
theory Admin_Correct
  imports Admin_Actions Store_Correct
begin

text \<open>
  Correctness of the admin server: its tables are deterministic although map iteration and
  \<^verbatim>\<open>sort.Slice\<close> are not; its pages partition the rows, and which page numbers panic; nothing is
  deleted without a POST that carries the token; a delete or purge touches its own database and
  nothing else; the status page lists every flag and hides the password; every request is answered
  when scans end.
\<close>

section \<open>Orders\<close>

lemma weak_less_desc: "weak_less (desc_then_key cnt key)"
  unfolding weak_less_def
  by (auto simp: desc_then_key_def word_sless_alt sint_eq_iff not_less split: if_splits)

lemma weak_less_key: "weak_less (\<lambda>a b. key a < (key b :: string))"
  by (auto simp: weak_less_def)

lemma weak_less_known: "weak_less (known_less sortBy)"
  by (simp add: known_less_def weak_less_desc)

lemma weak_less_unknown: "weak_less (unknown_less sortBy)"
  by (simp add: unknown_less_def weak_less_desc)

lemma desc_incomparable:
  "\<not> desc_then_key cnt key a b \<Longrightarrow> \<not> desc_then_key cnt key b a \<Longrightarrow> key a = key b"
  by (auto simp: desc_then_key_def word_sless_alt sint_eq_iff split: if_splits)

lemma known_incomparable:
  "\<not> known_less s a b \<Longrightarrow> \<not> known_less s b a \<Longrightarrow> ktKey a = ktKey b"
  by (auto simp: known_less_def dest: desc_incomparable split: if_splits)

lemma unknown_incomparable:
  "\<not> unknown_less s a b \<Longrightarrow> \<not> unknown_less s b a \<Longrightarrow> utKey a = utKey b"
  by (auto simp: unknown_less_def dest: desc_incomparable split: if_splits)

lemma distinct_rows:
  "distinct (map key xs) \<Longrightarrow> a \<in> set xs \<Longrightarrow> b \<in> set xs \<Longrightarrow> key a = key b \<Longrightarrow> a = b"
  by (induction xs) (auto simp: image_iff)

text \<open>The table of the best rows is the head of any sorted arrangement of the rows.\<close>

lemma take_topN: "(if topN < length rows then take topN rows else rows) = take 25 rows"
  by (simp add: topN_def)

lemma sorted_take_drop:
  assumes "sorted_wrt le xs" and "a \<in> set (take n xs)" and "b \<in> set (drop n xs)"
  shows "le a b"
proof -
  have "sorted_wrt le (take n xs @ drop n xs)" using assms(1) by simp
  then show ?thesis using assms(2,3) unfolding sorted_wrt_append by blast
qed

section \<open>Top rows\<close>

text \<open>The top table of known counters is determined by the counters. Whatever order the map is
  iterated in and whichever algorithm sorts, if the result is any arrangement of the counters' rows
  that the comparison calls sorted, the table is its first 25 rows; no counter left out ranks before
  one shown. So the page does not reshuffle on reload.\<close>

theorem topKnown_determined:
  assumes "wf_known m" and "iteration_order order"
    and "mset rows = mset (map known_top_row (kCounters m))"
    and "sorted_wrt (\<lambda>a b. \<not> known_less sortBy b a) rows"
  shows "topKnown order m sortBy = take 25 rows
    \<and> (\<forall>a\<in>set (take 25 rows). \<forall>b\<in>set (drop 25 rows). \<not> known_less sortBy b a)"
proof -
  let ?xs = "map known_top_row (order (kCounters m))"
  have ms: "mset ?xs = mset (map known_top_row (kCounters m))"
    using assms(2) by (simp add: iteration_order_def)
  have keys: "map ktKey (map known_top_row (kCounters m)) = keys_of (kCounters m)"
    by (simp add: known_top_row_def case_prod_beta)
  have "distinct (map ktKey (map known_top_row (kCounters m)))"
    unfolding keys using assms(1) by (simp add: wf_known_def)
  then have "distinct (map ktKey ?xs)"
    using ms by (metis mset_eq_imp_distinct_iff mset_map)
  note keys_differ = distinct_rows[OF this]
  have "rows = sort_slice (known_less sortBy) ?xs"
  proof (rule sort_slice_unique[OF weak_less_known _ assms(4)])
    show "mset rows = mset ?xs" using assms(3) ms by (simp only:)
  qed (rule keys_differ, assumption+, rule known_incomparable, assumption+)
  then show ?thesis
    using sorted_take_drop[OF assms(4), of _ 25]
    by (auto simp: topKnown_def KnownMap_Snapshot_def Let_def take_topN)
qed

text \<open>C27: So is the top table of unknown counters with a prefix: it shows the counters whose key has
  the prefix, without it.\<close>

theorem topUnknown_determined:
  assumes "wf_unknown m" and "iteration_order order"
    and "mset rows = mset (map (unknown_top_row pfx) (filter (\<lambda>kc. HasPrefix (fst kc) pfx) (uCounters m)))"
    and "sorted_wrt (\<lambda>a b. \<not> unknown_less sortBy b a) rows"
  shows "topUnknown order m pfx sortBy = take 25 rows
    \<and> (\<forall>a\<in>set (take 25 rows). \<forall>b\<in>set (drop 25 rows). \<not> unknown_less sortBy b a)"
proof -
  let ?sel = "filter (\<lambda>kc. HasPrefix (fst kc) pfx)"
  let ?xs = "map (unknown_top_row pfx) (?sel (order (uCounters m)))"
  have ms: "mset ?xs = mset (map (unknown_top_row pfx) (?sel (uCounters m)))"
    using assms(2) by (simp add: iteration_order_def)
  have inj: "inj_on (\<lambda>k. TrimPrefix k pfx) {k. HasPrefix k pfx}"
    by (auto simp: inj_on_def HasPrefix_iff)
  have keys: "map utKey (map (unknown_top_row pfx) (?sel (uCounters m))) =
      map (\<lambda>k. TrimPrefix k pfx) (map fst (?sel (uCounters m)))"
    by (simp add: unknown_top_row_def case_prod_beta)
  have "distinct (map fst (?sel (uCounters m)))"
    using assms(1) by (simp add: wf_unknown_def distinct_map_filter)
  moreover have "set (map fst (?sel (uCounters m))) \<subseteq> {k. HasPrefix k pfx}" by auto
  ultimately have "distinct (map utKey (map (unknown_top_row pfx) (?sel (uCounters m))))"
    unfolding keys by (metis distinct_map inj inj_on_subset)
  then have "distinct (map utKey ?xs)"
    using ms by (metis mset_eq_imp_distinct_iff mset_map)
  note keys_differ = distinct_rows[OF this]
  have "rows = sort_slice (unknown_less sortBy) ?xs"
  proof (rule sort_slice_unique[OF weak_less_unknown _ assms(4)])
    show "mset rows = mset ?xs" using assms(3) ms by (simp only:)
  qed (rule keys_differ, assumption+, rule unknown_incomparable, assumption+)
  then show ?thesis
    using sorted_take_drop[OF assms(4), of _ 25]
    by (auto simp: topUnknown_def UnknownMap_Snapshot_def Let_def take_topN)
qed

section \<open>Paging\<close>

text \<open>The end of a page, in exact and in wrapping arithmetic.\<close>

lemma page_from:
  assumes "1 \<le> sint page" and "25 * sint page < 2 ^ 63"
  shows "sint ((page - 1) * pageSize) = (sint page - 1) * 25"
    and "sint ((page - 1) * pageSize + pageSize) = sint page * 25"
proof -
  have p: "sint (page - 1) = sint page - 1"
    using assms(1) sint_in_int64[of page] sint_word_of_int[of "sint page - 1"] by simp
  have 25: "sint pageSize = 25" by (simp add: pageSize_def)
  show 1: "sint ((page - 1) * pageSize) = (sint page - 1) * 25"
    using assms by (subst sint_mult_in_range) (auto simp: p 25)
  show "sint ((page - 1) * pageSize + pageSize) = sint page * 25"
    using assms by (subst sint_add_in_range) (auto simp: 1 25)
qed

lemma page_to: "(page - 1) * pageSize + pageSize = page * 25"
  by (simp add: pageSize_def algebra_simps)

lemma page_rows_ok:
  assumes "1 \<le> sint page" and "25 * sint page < 2 ^ 63" and "int (length rows) < 2 ^ 63"
  shows "page_rows page rows = Inr (take 25 (drop (25 * (nat (sint page) - 1)) rows))"
    and "has_next page rows \<longleftrightarrow> 25 * nat (sint page) < length rows"
proof -
  let ?n = "word_of_nat (length rows) :: int64"
  note n = sint_of_nat[OF assms(3)] and f = page_from[OF assms(1,2)]
  obtain k where k: "sint page = int (Suc k)"
    using assms(1) by (metis Suc_pred' nat_0_le nat_int of_nat_0_less_iff int_one_le_iff_zero_less zero_less_imp_eq_int)
  define lo where "lo = (if ?n <s (page - 1) * pageSize then ?n else (page - 1) * pageSize)"
  define hi where "hi = (if ?n <s (page - 1) * pageSize + pageSize then ?n else (page - 1) * pageSize + pageSize)"
  have b: "page_bounds page ?n = (lo, hi)"
    by (simp add: page_bounds_def Let_def lo_def hi_def)
  have lo: "sint lo = int (min (25 * k) (length rows))"
    using n f(1) k by (auto simp: lo_def word_sless_alt)
  have hi: "sint hi = int (min (25 * k + 25) (length rows))"
    using n f(2) k by (auto simp: hi_def word_sless_alt)
  have nats: "nat (25 * int k) = 25 * k" "nat (1 + int k) - Suc 0 = k" by simp_all
  show "page_rows page rows = Inr (take 25 (drop (25 * (nat (sint page) - 1)) rows))"
    using lo hi k nats
    by (cases "25 * k \<le> length rows"; cases "25 * k + 25 \<le> length rows")
      (auto simp: page_rows_def b go_slice_def min_def nat_diff_distrib')
  show "has_next page rows \<longleftrightarrow> 25 * nat (sint page) < length rows"
    using hi n k by (auto simp: has_next_def b word_sless_alt)
qed

text \<open>A page number whose last row does not fit an int64 panics.\<close>

lemma page_rows_panics:
  assumes "int (length rows) < 2 ^ 63"
  shows "page_rows page rows = Inl SliceBounds \<longleftrightarrow> page * 25 <s 25"
proof -
  let ?n = "word_of_nat (length rows) :: int64"
  define F where "F = (page - 1) * pageSize"
  note n = sint_of_nat[OF assms]
  have T: "page * 25 = F + 25" using page_to[of page] by (simp add: F_def pageSize_def)
  define lo where "lo = (if ?n <s F then ?n else F)"
  define hi where "hi = (if ?n <s F + 25 then ?n else F + 25)"
  have "page_bounds page ?n = (lo, hi)"
    by (simp add: page_bounds_def Let_def lo_def hi_def F_def pageSize_def)
  moreover have "sint lo = min (sint F) (int (length rows))"
    "sint hi = min (sint (F + 25)) (int (length rows))"
    using n by (auto simp: lo_def hi_def word_sless_alt)
  ultimately have panic: "page_rows page rows = Inl SliceBounds \<longleftrightarrow>
      \<not> (0 \<le> sint F \<and> min (sint F) (int (length rows)) \<le> min (sint (F + 25)) (int (length rows)))"
    by (auto simp: page_rows_def go_slice_def)
  show ?thesis
  proof (cases "sint F + 25 < 2 ^ 63")
    case True
    then have "sint (F + 25) = sint F + 25"
      using sint_in_int64[of F] by (subst sint_add_in_range) auto
    with panic T show ?thesis by (auto simp: word_sless_alt)
  next
    case False
    let ?x = "9223372036854775833 + sint F" and ?m = "18446744073709551616 :: int"
    have "?x mod ?m = (?x - ?m) mod ?m" by (simp only: minus_mod_self2)
    also have "\<dots> = ?x - ?m"
      using False sint_in_int64[of F] by (intro mod_pos_pos_trivial) auto
    finally have "sint (F + 25) < 0"
      using sint_in_int64[of F]
      by (simp add: sint_word_add signed_take_bit_eq_take_bit_shift take_bit_eq_mod)
    with panic T False show ?thesis by (auto simp: word_sless_alt)
  qed
qed

lemma page_rows_panic_only: "page_rows page rows = Inl p \<Longrightarrow> p = SliceBounds"
  by (auto simp: page_rows_def go_slice_def split: prod.splits if_splits)

lemma concat_pages: "concat (map (\<lambda>i. take 25 (drop (25 * (i - 1)) rows)) [1..<Suc k]) = take (25 * k) rows"
proof (induction k)
  case (Suc k)
  have "[1..<Suc (Suc k)] = [1..<Suc k] @ [Suc k]" by simp
  with Suc show ?case using take_add[of "25 * k" 25 rows] by (simp add: add.commute del: upt_Suc)
qed simp

text \<open>C28: Following "next" from page 1 shows every row once, in order: the first k pages, put together,
  are the first 25 k rows, none shows more than 25, none panics, and page k offers a next one exactly
  when rows are left. This holds for every page number whose rows int64 arithmetic can count.\<close>

theorem pages_partition:
  assumes "0 < k" and "25 * int k < 2 ^ 63" and "int (length rows) < 2 ^ 63"
  shows "(\<exists>ps. map (\<lambda>i. page_rows (word_of_nat i) rows) [1..<Suc k] = map Inr ps
      \<and> concat ps = take (25 * k) rows \<and> list_all (\<lambda>p. length p \<le> 25) ps)
    \<and> (has_next (word_of_nat k) rows \<longleftrightarrow> 25 * k < length rows)"
proof
  have page: "sint (word_of_nat i :: int64) = int i" if "i \<le> k" for i
    using that assms(2) by (intro sint_of_nat) linarith
  let ?ps = "map (\<lambda>i. take 25 (drop (25 * (i - 1)) rows)) [1..<Suc k]"
  have "page_rows (word_of_nat i) rows = Inr (take 25 (drop (25 * (i - 1)) rows))"
    if "i \<in> set [1..<Suc k]" for i
  proof -
    from that have i: "1 \<le> i" "i \<le> k" by (auto simp del: upt_Suc)
    with assms show ?thesis
      using page_rows_ok(1)[of "word_of_nat i" rows] by (simp add: page)
  qed
  then have "map (\<lambda>i. page_rows (word_of_nat i) rows) [1..<Suc k] = map Inr ?ps"
    by (simp del: upt_Suc)
  moreover have "list_all (\<lambda>p. length p \<le> 25) ?ps" by (simp add: list_all_iff del: upt_Suc)
  ultimately show "\<exists>ps. map (\<lambda>i. page_rows (word_of_nat i) rows) [1..<Suc k] = map Inr ps
      \<and> concat ps = take (25 * k) rows \<and> list_all (\<lambda>p. length p \<le> 25) ps"
    using concat_pages[of rows k] by blast
  show "has_next (word_of_nat k) rows \<longleftrightarrow> 25 * k < length rows"
    using page_rows_ok(2)[of "word_of_nat k" rows] assms by (simp add: page)
qed

theorem pages_partition_witness:
  "has_next (word_of_nat 1) [0..<60] \<and> has_next (word_of_nat 2) [0..<60] \<and> \<not> has_next (word_of_nat 3) [0..<60]"
  using pages_partition[of 1 "[0..<60]"] pages_partition[of 2 "[0..<60]"] pages_partition[of 3 "[0..<60]"]
  by simp

text \<open>Every page number that does not panic shows the 25 rows before its end, the end taken as the
  wrapping product of the page number and the page size.\<close>

lemma page_rows_wrap:
  assumes "\<not> page * 25 <s 25" and "int (length rows) < 2 ^ 63"
  shows "page_rows page rows = Inr (take 25 (drop (nat (sint (page * 25) - 25)) rows))"
    and "has_next page rows \<longleftrightarrow> sint (page * 25) < int (length rows)"
proof -
  let ?n = "word_of_nat (length rows) :: int64"
  define F where "F = (page - 1) * pageSize"
  define e where "e = nat (sint (page * 25))"
  note n = sint_of_nat[OF assms(2)]
  have T: "page * 25 = F + 25" using page_to[of page] by (simp add: F_def pageSize_def)
  have e: "sint (page * 25) = int e" "25 \<le> e" using assms(1) by (auto simp: e_def word_sless_alt)
  have "page * 25 - 25 = word_of_int (sint (page * 25) - 25)" by simp
  moreover have "sint (word_of_int (sint (page * 25) - 25) :: int64) = sint (page * 25) - 25"
    using e sint_in_int64[of "page * 25"] by (intro sint_word_of_int) simp
  ultimately have "sint (page * 25 - 25) = sint (page * 25) - 25" by (simp only:)
  then have F: "sint F = int e - 25" using T e by simp
  define lo where "lo = (if ?n <s F then ?n else F)"
  define hi where "hi = (if ?n <s F + 25 then ?n else F + 25)"
  have b: "page_bounds page ?n = (lo, hi)"
    by (simp add: page_bounds_def Let_def lo_def hi_def F_def pageSize_def)
  have lo: "sint lo = int (min (e - 25) (length rows))"
    using n F e(2) by (auto simp: lo_def word_sless_alt)
  have hi: "sint hi = int (min e (length rows))"
    using n T e by (auto simp: hi_def word_sless_alt)
  show "page_rows page rows = Inr (take 25 (drop (nat (sint (page * 25) - 25)) rows))"
    using lo hi e
    by (cases "e - 25 \<le> length rows"; cases "e \<le> length rows")
      (auto simp: page_rows_def b go_slice_def min_def nat_diff_distrib')
  show "has_next page rows \<longleftrightarrow> sint (page * 25) < int (length rows)"
    using hi n e by (auto simp: has_next_def b word_sless_alt)
qed

text \<open>The wrapped end over the integers, modulo \<open>2 ^ 64\<close>.\<close>

definition page_end :: "int64 \<Rightarrow> int" where
  "page_end page = (25 * sint page) mod 2 ^ 64"

lemma page_end_cases:
  shows "page * 25 <s 25 \<longleftrightarrow> \<not> (25 \<le> page_end page \<and> page_end page < 2 ^ 63)"
    and "page_end page < 2 ^ 63 \<Longrightarrow> sint (page * 25) = page_end page"
proof -
  have rng: "0 \<le> page_end page" "page_end page < 2 ^ 64" by (simp_all add: page_end_def)
  have w: "page * 25 = word_of_int (page_end page)"
  proof -
    have "page * 25 = word_of_int (25 * sint page)" by simp
    also have "\<dots> = word_of_int (page_end page)"
      unfolding page_end_def word_of_int_eq_iff by (simp add: take_bit_eq_mod)
    finally show ?thesis .
  qed
  show low: "sint (page * 25) = page_end page" if "page_end page < 2 ^ 63"
    unfolding w using that rng by (intro sint_word_of_int) simp
  show "page * 25 <s 25 \<longleftrightarrow> \<not> (25 \<le> page_end page \<and> page_end page < 2 ^ 63)"
  proof (cases "page_end page < 2 ^ 63")
    case True
    with low show ?thesis by (auto simp: word_sless_alt)
  next
    case False
    have "(word_of_int (page_end page) :: int64) = word_of_int (page_end page - 2 ^ 64)"
      unfolding word_of_int_eq_iff by (simp add: take_bit_eq_mod)
    then have "sint (page * 25) = page_end page - 2 ^ 64"
      unfolding w using False rng by (simp only:) (intro sint_word_of_int, simp)
    with rng False show ?thesis by (simp add: word_sless_alt)
  qed
qed

lemma page_end_exact: "1 \<le> sint page \<Longrightarrow> 25 * sint page < 2 ^ 63 \<Longrightarrow> page_end page = 25 * sint page"
  by (simp add: page_end_def)

text \<open>What a page of rows shows: the 25 rows that end where \<open>page_end\<close> says, and whether there is a
  page after them.\<close>

definition page_shown :: "int64 \<Rightarrow> 'row list \<Rightarrow> ('row, 'top) list_page \<Rightarrow> bool" where
  "page_shown page rows d \<longleftrightarrow>
     lp_Page d = page \<and> lp_Total d = word_of_nat (length rows) \<and> (lp_HasPrev d \<longleftrightarrow> 1 <s page)
     \<and> lp_Rows d = take 25 (drop (nat (page_end page - 25)) rows)
     \<and> (lp_HasNext d \<longleftrightarrow> page_end page < int (length rows))"

lemma page_number_pos: "1 \<le> sint (page_number r)"
  by (simp add: page_number_def Let_def word_sless_alt)

lemma length_rows_le:
  "length (limits_rows m q ls) \<le> length ls" "length (abuse_rows q es) \<le> length es"
  by (simp_all add: limits_rows_def abuse_rows_def)

text \<open>C13: A listing whose scan succeeds shows exactly the 25 rows that end at row \<open>page_end\<close>, with
  the total and whether there are pages before and after; it panics exactly on the page numbers
  whose \<open>page_end\<close> is below 25 or does not fit an int64 (368934881474191033 is the smallest). The
  page number comes from the URL unchecked, and \<open>page_end\<close> is 25 times the page number modulo
  \<open>2 ^ 64\<close>: up to \<open>2 ^ 63 / 25\<close> the page shown is the one asked for, beyond that the
  product wraps and other rows, or a panic, may answer.\<close>

theorem listing_pages:
  fixes r :: web_request and st :: "'r admin_state"
  defines "page \<equiv> page_number r" and "q \<equiv> wr_query r ''q''"
  assumes "ScanLimits c (ad_store st) = Some (Scanned ls, s)" and "int (length ls) < 2 ^ 63"
    and "ac_scan cfg (ad_store st) = Some (Scanned es, s')" and "int (length es) < 2 ^ 63"
  shows "(if 25 \<le> page_end page \<and> page_end page < 2 ^ 63
    then (\<exists>d. handleLimits sv c env r st =
          Some (Inr (Rendered ''limits.html'' (LimitsPage d)), st\<lparr>ad_store := s\<rparr>)
        \<and> page_shown page (limits_rows (ad_known st) q ls) d)
      \<and> (\<exists>d. handleAbuse sv cfg env r st =
          Some (Inr (Rendered (ac_template cfg) (AbusePage d)), st\<lparr>ad_store := s'\<rparr>)
        \<and> page_shown page (abuse_rows q es) d)
    else handleLimits sv c env r st = Some (Inl SliceBounds, st\<lparr>ad_store := s\<rparr>)
      \<and> handleAbuse sv cfg env r st = Some (Inl SliceBounds, st\<lparr>ad_store := s'\<rparr>))
    \<and> (25 * sint page < 2 ^ 63 \<longrightarrow> page_end page = 25 * sint page)"
proof -
  note page = page_number_pos[of r, folded page_def]
  have len: "int (length (limits_rows (ad_known st) q ls)) < 2 ^ 63" "int (length (abuse_rows q es)) < 2 ^ 63"
    using length_rows_le(1)[of "ad_known st" q ls] length_rows_le(2)[of q es] assms(4,6) by linarith+
  have l: "handleLimits sv c env r st = Some (Inl SliceBounds, st\<lparr>ad_store := s\<rparr>)" if "page * 25 <s 25"
    using that len(1) assms(3) by (auto simp: handleLimits_def Let_def page_rows_panics[THEN iffD2] page_def q_def)
  have a: "handleAbuse sv cfg env r st = Some (Inl SliceBounds, st\<lparr>ad_store := s'\<rparr>)" if "page * 25 <s 25"
    using that len(2) assms(5) by (auto simp: handleAbuse_def Let_def page_rows_panics[THEN iffD2] page_def q_def)
  show ?thesis
  proof (cases "page * 25 <s 25")
    case False
    then have e: "sint (page * 25) = page_end page" using page_end_cases by blast
    note rowsL = page_rows_wrap[OF False len(1), unfolded e]
      and rowsA = page_rows_wrap[OF False len(2), unfolded e]
    show ?thesis
      using False rowsL rowsA assms(3,5) page_end_exact[OF page]
      by (auto simp: handleLimits_def handleAbuse_def Let_def page_shown_def page_end_cases(1)
          simp flip: page_def q_def)
  qed (use l a page_end_cases(1)[of page] page_end_exact[OF page] in auto)
qed

section \<open>Witnesses\<close>

definition sample_env :: "int admin_env" where
  "sample_env =
     \<lparr>av_now = unix_time 1700000000, av_knownOrder = rev, av_unknownOrder = rev,
      av_gather = Inr [\<lparr>mf_name = ''up'', mf_help = ''h'', mf_type = GAUGE,
        mf_metrics = [\<lparr>sm_labels = [(''a'', ''1'')], sm_counter = 0, sm_gauge = 3, sm_histogram = None,
          sm_summary = None\<rparr>]\<rparr>],
      av_float = dec_digits, av_float6 = dec_digits, av_quote = (\<lambda>s. s)\<rparr>"

definition sample_known :: known_map where
  "sample_known = \<lparr>kCounters = [(''b'', new_known (unix_time 7) 7), (''a'', new_known (unix_time 8) 8)],
     kWindowS = 1\<rparr>"

definition sample_unknown :: unknown_map where
  "sample_unknown = \<lparr>uCounters = [(''key:b'', new_unknown (unix_time 7) 7), (''ip:a'', new_unknown (unix_time 8) 8),
     (''key:a'', (new_unknown (unix_time 8) 8)\<lparr>uTotal := 1\<rparr>)], uWindowS = 1\<rparr>"

definition sample_admin :: "mem_redis admin_state" where
  "sample_admin = \<lparr>ad_known = sample_known, ad_unknown = sample_unknown, ad_store = mem_store example_db, ad_log = []\<rparr>"

definition sample_server :: admin_server where
  "sample_server = \<lparr>sv_cfg = Default, sv_startedAt = unix_time 1699999999, sv_version = ''dev'', sv_csrfToken = ''t0''\<rparr>"

definition get_request :: "string \<Rightarrow> string \<Rightarrow> web_request" where
  "get_request path q = \<lparr>wr_method = ''GET'', wr_path = path, wr_rawQuery = q, wr_postForm = Inr [], wr_remote = ''r''\<rparr>"

theorem topKnown_determined_witness:
  "topKnown rev sample_known ''total'' = map known_top_row [(''a'', new_known (unix_time 8) 8), (''b'', new_known (unix_time 7) 7)]"
proof -
  let ?rows = "map known_top_row [(''a'', new_known (unix_time 8) 8), (''b'', new_known (unix_time 7) 7)]"
  have 1: "wf_known sample_known" "iteration_order rev"
    by (simp_all add: wf_known_def sample_known_def iteration_order_def)
  have 2: "mset ?rows = mset (map known_top_row (kCounters sample_known))"
    by (simp add: sample_known_def)
  have 3: "sorted_wrt (\<lambda>a b. \<not> known_less ''total'' b a) ?rows" by code_simp
  show ?thesis using topKnown_determined[OF 1 2 3] by simp
qed

theorem topUnknown_determined_witness:
  "map utKey (topUnknown rev sample_unknown UnknownKeyPrefix ''total'') = [''a'', ''b'']"
proof -
  let ?rows = "map (unknown_top_row UnknownKeyPrefix)
    [(''key:a'', (new_unknown (unix_time 8) 8)\<lparr>uTotal := 1\<rparr>), (''key:b'', new_unknown (unix_time 7) 7)]"
  have 1: "wf_unknown sample_unknown" "iteration_order rev"
    by (simp_all add: wf_unknown_def sample_unknown_def iteration_order_def)
  have "filter (\<lambda>kc. HasPrefix (fst kc) UnknownKeyPrefix) (uCounters sample_unknown) =
      [(''key:b'', new_unknown (unix_time 7) 7), (''key:a'', (new_unknown (unix_time 8) 8)\<lparr>uTotal := 1\<rparr>)]"
    by (simp add: sample_unknown_def HasPrefix_def UnknownKeyPrefix_def)
  then have 2: "mset ?rows = mset (map (unknown_top_row UnknownKeyPrefix)
      (filter (\<lambda>kc. HasPrefix (fst kc) UnknownKeyPrefix) (uCounters sample_unknown)))"
    by (simp add: add_mset_commute)
  have 3: "sorted_wrt (\<lambda>a b. \<not> unknown_less ''total'' b a) ?rows" by code_simp
  have "map utKey (take 25 ?rows) = [''a'', ''b'']" by code_simp
  then show ?thesis using topUnknown_determined[OF 1 2 3] by (simp only:)
qed

text \<open>A page of the sample database, and the first page number that panics.\<close>

lemma sample_scans:
  obtains ls s es s' where "ScanLimits mem_clients (mem_store example_db) = Some (Scanned ls, s)"
    "map leAPIKey ls = [''a'', ''b'']"
    "ScanAbuseKeys mem_clients (mem_store example_db) = Some (Scanned es, s')" "map aeKey es = [''a'', ''b'', ''c'']"
proof -
  have l: "case ScanLimits mem_clients (mem_store example_db) of
      Some (Scanned ls, s) \<Rightarrow> map leAPIKey ls = [''a'', ''b''] | _ \<Rightarrow> False" by code_simp
  have a: "case ScanAbuseKeys mem_clients (mem_store example_db) of
      Some (Scanned es, s) \<Rightarrow> map aeKey es = [''a'', ''b'', ''c''] | _ \<Rightarrow> False" by code_simp
  from l a that show ?thesis by (auto split: option.splits scanned.splits)
qed

definition sample_abuse_config :: "mem_redis abuseConfig" where
  "sample_abuse_config =
     \<lparr>ac_template = ''t'', ac_title = [], ac_scan = ScanAbuseKeys mem_clients, ac_deleteAction = [],
      ac_purgeAction = [], ac_basePath = [], ac_counterPrefix = UnknownKeyPrefix, ac_keyHeader = []\<rparr>"

theorem listing_pages_witness:
  "(\<exists>d. fst (the (handleLimits sample_server mem_clients sample_env (get_request ''/limits'' ''q=b'') sample_admin)) =
        Inr (Rendered ''limits.html'' (LimitsPage d)) \<and> map lrAPIKey (lp_Rows d) = [''b''])
   \<and> fst (the (handleAbuse sample_server sample_abuse_config sample_env
        (get_request ''/abuse'' ''page=368934881474191033'') sample_admin)) = Inl SliceBounds"
proof -
  obtain ls s es s' where scans: "ScanLimits mem_clients (mem_store example_db) = Some (Scanned ls, s)"
    "map leAPIKey ls = [''a'', ''b'']"
    "ScanAbuseKeys mem_clients (mem_store example_db) = Some (Scanned es, s')" "map aeKey es = [''a'', ''b'', ''c'']"
    by (rule sample_scans)
  have len: "length ls = 2" "length es = 3" using scans(2,4) by (metis length_map length_Cons list.size(3) numeral_2_eq_2 numeral_3_eq_3)+
  have sl: "ScanLimits mem_clients (ad_store sample_admin) = Some (Scanned ls, s)"
    "ac_scan sample_abuse_config (ad_store sample_admin) = Some (Scanned es, s')"
    using scans by (simp_all add: sample_admin_def sample_abuse_config_def)
  note pages = listing_pages[OF sl(1) _ sl(2), where r = "get_request ''/limits'' ''q=b''"]
    listing_pages[OF sl(1) _ sl(2), where r = "get_request ''/abuse'' ''page=368934881474191033''"]
  have p: "page_end (page_number (get_request ''/limits'' ''q=b'')) = 25"
    "\<not> page_end (page_number (get_request ''/abuse'' ''page=368934881474191033'')) < 2 ^ 63"
    "wr_query (get_request ''/limits'' ''q=b'') ''q'' = ''b''"
    by code_simp+
  obtain l1 l2 where l: "ls = [l1, l2]" using len(1) by (auto simp: numeral_2_eq_2 length_Suc_conv)
  have "matches ''b'' ''a'' = False" "matches ''b'' ''b'' = True" by code_simp+
  then have rows: "map lrAPIKey (limits_rows m ''b'' ls) = [''b'']" for m
    using scans(2) l by (auto simp: limits_rows_def limits_row_def Let_def split: option.splits)
  obtain d where d: "handleLimits sample_server mem_clients sample_env (get_request ''/limits'' ''q=b'') sample_admin =
      Some (Inr (Rendered ''limits.html'' (LimitsPage d)), sample_admin\<lparr>ad_store := s\<rparr>)"
    "lp_Rows d = take 25 (limits_rows (ad_known sample_admin) ''b'' ls)"
    using pages(1)[of sample_server sample_env] len p by (auto simp: page_shown_def)
  with rows have "map lrAPIKey (lp_Rows d) = [''b'']" by (simp flip: take_map)
  with d(1) show ?thesis
    using pages(2)[of sample_server sample_env] len p(2) by simp
qed

end
