(* ===== verification/Admin_Safety.thy ===== *)
theory Admin_Safety
  imports Admin_Correct Go_Query
begin

text \<open>
  What the admin server may change. The token check is string equality; without a POST that carries
  the token no route issues a writing Redis command; a delete or purge that has it issues one
  command, on its own database; no route changes the counters; every request is answered when
  scans end.
\<close>

section \<open>The token\<close>

lemma of_char_byte_eq: "(of_char a :: 8 word) = of_char b \<longleftrightarrow> a = b"
proof
  have byte: "unat (of_char c :: 8 word) = of_char c" for c :: char
  proof -
    have "(of_char c :: nat) < 2 ^ LENGTH(8)" by (cases c) simp
    then have "unat (word_of_nat (of_char c) :: 8 word) = of_char c" by (simp add: unat_of_nat)
    then show ?thesis by (simp only: of_nat_of_char)
  qed
  assume "(of_char a :: 8 word) = of_char b"
  then have "(of_char a :: nat) = of_char b" by (metis byte)
  then show "a = b" by simp
qed simp

lemma xor_eq_0_iff: "xor a b = 0 \<longleftrightarrow> a = (b :: 8 word)"
  by (metis xor.assoc xor.left_neutral xor.right_neutral xor_self_eq)

lemma compare_fold:
  "length xs = length ys \<Longrightarrow>
     foldl (\<lambda>v (a, b). or v (xor (of_char a) (of_char b))) (v :: 8 word) (zip xs ys) = 0
     \<longleftrightarrow> v = 0 \<and> xs = ys"
proof (induction xs ys arbitrary: v rule: list_induct2)
  case (Cons x xs y ys)
  show ?case
    by (simp add: Cons.IH or_eq_0_iff xor_eq_0_iff of_char_byte_eq)
qed simp

lemma constant_time_compare_iff: "constant_time_compare x y = 1 \<longleftrightarrow> x = y"
  by (auto simp: constant_time_compare_def compare_fold)

section \<open>Reading only\<close>

text \<open>Two clients that answer reads alike, whatever their writing commands do.\<close>

definition same_reads :: "'r redis_client \<Rightarrow> 'r redis_client \<Rightarrow> bool" where
  "same_reads c c' \<longleftrightarrow> rc_scan c = rc_scan c' \<and> rc_hgetall c = rc_hgetall c' \<and> rc_ttl c = rc_ttl c'
     \<and> rc_ping c = rc_ping c'"

lemma scan_abuse_keys_reads: "same_reads c c' \<Longrightarrow> scan_abuse_keys c pfx ks out s = scan_abuse_keys c' pfx ks out s"
proof (induction ks arbitrary: out s)
  case (Cons k ks)
  note reads = Cons.prems[unfolded same_reads_def]
  show ?case
    by (simp add: Cons.IH[OF Cons.prems] reads split: sum.split prod.split)
qed simp

lemma scan_limit_keys_reads: "same_reads c c' \<Longrightarrow> scan_limit_keys c ks out s = scan_limit_keys c' ks out s"
proof (induction ks arbitrary: out s)
  case (Cons k ks)
  note reads = Cons.prems[unfolded same_reads_def]
  show ?case
    by (simp add: Cons.IH[OF Cons.prems] reads split: sum.split prod.split)
qed simp

lemma scan_abuse_loop_reads_Some:
  assumes "scan_abuse_loop c pat pfx cur out s = Some y"
  shows "\<forall>c'. same_reads c c' \<longrightarrow> scan_abuse_loop c' pat pfx cur out s = Some y"
proof (rule scan_abuse_loop.raw_induct
    [where P = "\<lambda>c pat pfx cur out s y. \<forall>c'. same_reads c c' \<longrightarrow> scan_abuse_loop c' pat pfx cur out s = Some y", OF _ assms])
  fix loop c pat pfx cur out and s :: "'a store" and y
  assume IH: "\<And>c pat pfx cur out s y. loop c pat pfx cur out s = Some y \<Longrightarrow>
      \<forall>c'. same_reads c c' \<longrightarrow> scan_abuse_loop c' pat pfx cur out s = Some y"
    and eq: "(case on_redis (rc_scan c cur pat 100) s of
        (Inl err, s1) \<Rightarrow> Some (ScanErr err, observe ''ScanAbuse'' (Some err) s1)
      | (Inr (keys, cursor'), s1) \<Rightarrow>
          (case scan_abuse_keys c pfx keys out s1 of
             (Inl p, s2) \<Rightarrow> Some (ScanPanic p, s2)
           | (Inr out', s2) \<Rightarrow>
               (if cursor' = 0 then Some (Scanned out', observe ''ScanAbuse'' None s2)
                else loop c pat pfx cursor' out' s2))) = Some y"
  show "\<forall>c'. same_reads c c' \<longrightarrow> scan_abuse_loop c' pat pfx cur out s = Some y"
  proof (intro allI impI)
    fix c' assume same: "same_reads c c'"
    then have "rc_scan c' = rc_scan c" by (simp add: same_reads_def)
    then show "scan_abuse_loop c' pat pfx cur out s = Some y"
      using eq IH[of c, THEN spec, THEN mp, OF _ same] scan_abuse_keys_reads[OF same]
      by (cases y) (subst scan_abuse_loop.simps, auto split: prod.splits sum.splits if_splits)
  qed
qed

lemma scan_limits_loop_reads_Some:
  assumes "scan_limits_loop c cur out s = Some y"
  shows "\<forall>c'. same_reads c c' \<longrightarrow> scan_limits_loop c' cur out s = Some y"
proof (rule scan_limits_loop.raw_induct
    [where P = "\<lambda>c cur out s y. \<forall>c'. same_reads c c' \<longrightarrow> scan_limits_loop c' cur out s = Some y", OF _ assms])
  fix loop c cur out and s :: "'a store" and y
  assume IH: "\<And>c cur out s y. loop c cur out s = Some y \<Longrightarrow>
      \<forall>c'. same_reads c c' \<longrightarrow> scan_limits_loop c' cur out s = Some y"
    and eq: "(case on_redis (rc_scan c cur (''rate:limit:'' @ ''*'') 100) s of
        (Inl err, s1) \<Rightarrow> Some (ScanErr err, observe ''ScanLimits'' (Some err) s1)
      | (Inr (keys, cursor'), s1) \<Rightarrow>
          (case scan_limit_keys c keys out s1 of
             (Inl p, s2) \<Rightarrow> Some (ScanPanic p, s2)
           | (Inr out', s2) \<Rightarrow>
               (if cursor' = 0 then Some (Scanned out', observe ''ScanLimits'' None s2)
                else loop c cursor' out' s2))) = Some y"
  show "\<forall>c'. same_reads c c' \<longrightarrow> scan_limits_loop c' cur out s = Some y"
  proof (intro allI impI)
    fix c' assume same: "same_reads c c'"
    then have "rc_scan c' = rc_scan c" by (simp add: same_reads_def)
    then show "scan_limits_loop c' cur out s = Some y"
      using eq IH[of c, THEN spec, THEN mp, OF _ same] scan_limit_keys_reads[OF same]
      by (cases y) (subst scan_limits_loop.simps, auto split: prod.splits sum.splits if_splits)
  qed
qed

lemma same_reads_sym: "same_reads c c' \<Longrightarrow> same_reads c' c"
  by (simp add: same_reads_def)

lemma option_eqI: "(\<And>y. a = Some y \<Longrightarrow> b = Some y) \<Longrightarrow> (\<And>y. b = Some y \<Longrightarrow> a = Some y) \<Longrightarrow> a = b"
  by (metis not_Some_eq)

lemma scan_loops_read:
  assumes "same_reads c c'"
  shows "scan_abuse_loop c pat pfx cur out s = scan_abuse_loop c' pat pfx cur out s"
    and "scan_limits_loop c cur out' s = scan_limits_loop c' cur out' s"
  by (rule option_eqI; use assms same_reads_sym[OF assms] in
      \<open>blast dest: scan_abuse_loop_reads_Some scan_limits_loop_reads_Some\<close>)+

section \<open>Who may write\<close>

text \<open>A client whose writing commands are replaced by those of another.\<close>

definition with_writes_of :: "'r redis_client \<Rightarrow> 'r redis_client \<Rightarrow> 'r redis_client" where
  "with_writes_of d c = c\<lparr>rc_txexec := rc_txexec d, rc_del := rc_del d, rc_flushdb := rc_flushdb d\<rparr>"

definition with_writes :: "'r clients \<Rightarrow> 'r clients \<Rightarrow> 'r clients" where
  "with_writes d c =
     \<lparr>limits = with_writes_of (limits d) (limits c), abuseK = with_writes_of (abuseK d) (abuseK c),
      abuseIP = with_writes_of (abuseIP d) (abuseIP c)\<rparr>"

text \<open>A POST whose form parses and carries the process's token.\<close>

definition authorised :: "admin_server \<Rightarrow> web_request \<Rightarrow> bool" where
  "authorised sv r \<longleftrightarrow>
     wr_method r = ''POST'' \<and> (\<exists>form. wr_postForm r = Inr form \<and> query_get form ''csrf_token'' = sv_csrfToken sv)"

lemma checkCSRF_cases:
  "checkCSRF sv r st =
     (if PostFormValue r ''csrf_token'' = sv_csrfToken sv then (None, st)
      else (Some (HttpError 403 ''csrf token invalid'' None), ad_logs (CsrfRejected (wr_path r) (wr_remote r)) st))"
  by (simp add: checkCSRF_def constant_time_compare_iff Let_def)

lemma authorised_cases:
  obtains (yes) form where "authorised sv r" "wr_method r = ''POST''" "wr_postForm r = Inr form"
      "PostFormValue r ''csrf_token'' = sv_csrfToken sv"
  | (verb) "\<not> authorised sv r" "wr_method r \<noteq> ''POST''"
  | (form) err where "\<not> authorised sv r" "wr_method r = ''POST''" "wr_postForm r = Inl err"
  | (token) form where "\<not> authorised sv r" "wr_method r = ''POST''" "wr_postForm r = Inr form"
      "PostFormValue r ''csrf_token'' \<noteq> sv_csrfToken sv"
  by (cases "wr_method r = ''POST''"; cases "wr_postForm r") (auto simp: authorised_def PostFormValue_def)

text \<open>A refused request: the answer, and nothing done but a log line.\<close>

definition refused :: "'r admin_state \<Rightarrow> 'r handled option \<Rightarrow> bool" where
  "refused st res \<longleftrightarrow>
     (\<exists>code msg err log. res = Some (Inr (HttpError code msg err), st\<lparr>ad_log := log\<rparr>) \<and> code \<in> {400, 403, 405})"

lemma refusedI:
  assumes "code \<in> {400, 403, 405}"
  shows "refused st (Some (Inr (HttpError code msg err), st))"
    and "refused st (Some (Inr (HttpError code msg err), ad_logs e st))"
proof -
  have "st = st\<lparr>ad_log := ad_log st\<rparr>" by simp
  with assms show "refused st (Some (Inr (HttpError code msg err), st))"
    unfolding refused_def by blast
  show "refused st (Some (Inr (HttpError code msg err), ad_logs e st))"
    using assms unfolding refused_def ad_logs_def by blast
qed

lemma handleDelete_refused:
  assumes "\<not> authorised sv r"
  shows "refused st (handleDelete sv label back fn r st)"
    and "handleDelete sv label back fn r st = handleDelete sv label back fn' r st"
proof -
  have "refused st (handleDelete sv label back fn r st)
      \<and> handleDelete sv label back fn r st = handleDelete sv label back fn' r st"
    by (rule authorised_cases[where sv = sv and r = r];
        use assms in \<open>force simp: handleDelete_def checkCSRF_cases intro: refusedI\<close>)
  then show "refused st (handleDelete sv label back fn r st)"
    and "handleDelete sv label back fn r st = handleDelete sv label back fn' r st" by blast+
qed

lemma handlePurge_refused:
  assumes "\<not> authorised sv r"
  shows "refused st (handlePurge sv label back action fn r st)"
    and "handlePurge sv label back action fn r st = handlePurge sv label back action fn' r st"
proof -
  have "refused st (handlePurge sv label back action fn r st)
      \<and> handlePurge sv label back action fn r st = handlePurge sv label back action fn' r st"
    by (rule authorised_cases[where sv = sv and r = r];
        use assms in \<open>force simp: handlePurge_def checkCSRF_cases intro: refusedI\<close>)
  then show "refused st (handlePurge sv label back action fn r st)"
    and "handlePurge sv label back action fn r st = handlePurge sv label back action fn' r st" by blast+
qed

definition write_paths :: "string list" where
  "write_paths = [''/limits/delete'', ''/limits/purge'', ''/abuse/keys/delete'', ''/abuse/keys/purge'',
     ''/abuse/ips/delete'', ''/abuse/ips/purge'']"

lemma clean_paths:
  "cleanPath ''/limits'' = ''/limits''" "cleanPath ''/limits/delete'' = ''/limits/delete''"
  "cleanPath ''/limits/purge'' = ''/limits/purge''" "cleanPath ''/abuse/keys'' = ''/abuse/keys''"
  "cleanPath ''/abuse/keys/delete'' = ''/abuse/keys/delete''"
  "cleanPath ''/abuse/keys/purge'' = ''/abuse/keys/purge''" "cleanPath ''/abuse/ips'' = ''/abuse/ips''"
  "cleanPath ''/abuse/ips/delete'' = ''/abuse/ips/delete''"
  "cleanPath ''/abuse/ips/purge'' = ''/abuse/ips/purge''" "cleanPath ''/'' = ''/''"
  by code_simp+

lemmas mux_clean = mux_redirects_def clean_paths

lemmas handler_defs = handleLimitsDelete_def handleLimitsPurge_def handleAbuseKeysDelete_def
  handleAbuseKeysPurge_def handleAbuseIPsDelete_def handleAbuseIPsPurge_def

lemma same_reads_with: "same_reads (with_writes_of d c) c"
  by (simp add: same_reads_def with_writes_of_def)

lemma ping_with [simp]: "rc_ping (with_writes_of d c) = rc_ping c"
  by (simp add: with_writes_of_def)

lemma scans_with_writes:
  "ScanLimits (with_writes d c) = ScanLimits c" "ScanAbuseKeys (with_writes d c) = ScanAbuseKeys c"
  "ScanAbuseIPs (with_writes d c) = ScanAbuseIPs c" "Ping (with_writes d c) = Ping c"
  by (simp_all add: fun_eq_iff with_writes_def ScanLimits_def ScanAbuseKeys_def ScanAbuseIPs_def
      scanAbuse_def Ping_def scan_loops_read[OF same_reads_with])

lemma listings_with_writes:
  "handleLimits sv (with_writes d c) = handleLimits sv c"
  "handleAbuseKeys sv (with_writes d c) = handleAbuseKeys sv c"
  "handleAbuseIPs sv (with_writes d c) = handleAbuseIPs sv c"
  "handleIndex sv (with_writes d c) = handleIndex sv c"
  by (simp_all add: fun_eq_iff handleLimits_def handleAbuseKeys_def handleAbuseIPs_def handleIndex_def
      scans_with_writes)

text \<open>C8: Nothing is written to Redis without a POST that carries the process's token: for any other
  request, the outcome (answer, log, state of the world) does not depend on what the writing commands
  would do, and the six changing routes refuse it with 405, 400 or 403 without a Redis command.\<close>

theorem admin_requires_token:
  assumes "\<not> authorised sv r"
  shows "Routes sv (with_writes d c) env r st = Routes sv c env r st
    \<and> (wr_path r \<in> set write_paths \<longrightarrow> refused st (Routes sv c env r st))"
proof
  show "Routes sv (with_writes d c) env r st = Routes sv c env r st"
    by (simp add: Routes_def Let_def listings_with_writes handler_defs,
        intro conjI impI; rule handleDelete_refused(2)[OF assms] handlePurge_refused(2)[OF assms])
  show "wr_path r \<in> set write_paths \<longrightarrow> refused st (Routes sv c env r st)"
    using handleDelete_refused(1)[OF assms] handlePurge_refused(1)[OF assms]
    by (auto simp: write_paths_def Routes_def mux_clean handler_defs)
qed

section \<open>What an authorised request writes\<close>

text \<open>The three databases a delete or purge may be about: path, client, key prefix, and the page to go
  back to.\<close>

definition admin_targets :: "(string \<times> ('r clients \<Rightarrow> 'r redis_client) \<times> string) list" where
  "admin_targets =
     [(''/limits'', limits, ''rate:limit:''), (''/abuse/keys'', abuseK, ''rate:abuse:key:''),
      (''/abuse/ips'', abuseIP, ''rate:abuse:ip:'')]"

lemma delByPrefix_nonempty:
  "ks \<noteq> [] \<Longrightarrow> delByPrefix c pfx ks s =
     (fst (rc_del c (map ((@) pfx) ks) (st_redis s)),
      observe ''Del'' (err_of (fst (rc_del c (map ((@) pfx) ks) (st_redis s))))
        (s\<lparr>st_redis := snd (rc_del c (map ((@) pfx) ks) (st_redis s))\<rparr>))"
  by (simp add: delByPrefix_def on_redis_eq Let_def)

lemma handleDelete_authorised:
  assumes "authorised sv r" and "wr_postForm r = Inr form" and "form_values form ''keys'' = ks"
    and "ks \<noteq> []" and "rc_del c (map ((@) pfx) ks) (st_redis (ad_store st)) = (ans, r')"
    and "\<And>s. fn ks s = delByPrefix c pfx ks s"
  shows "\<exists>st'. handleDelete sv label back fn r st =
      Some (Inr (case ans of Inl e \<Rightarrow> HttpError 502 ''delete failed: '' (Some e) | Inr n \<Rightarrow> Redirect back 303), st')
    \<and> st_redis (ad_store st') = r' \<and> ad_known st' = ad_known st \<and> ad_unknown st' = ad_unknown st"
proof -
  have "wr_method r = ''POST''" "PostFormValue r ''csrf_token'' = sv_csrfToken sv"
    using assms(1,2) by (auto simp: authorised_def PostFormValue_def)
  then show ?thesis
    using assms(2-)
    by (cases ans) (simp_all add: handleDelete_def checkCSRF_cases on_store_def delByPrefix_nonempty ad_logs_def)
qed

text \<open>C14: An authorised POST that selects keys on one of the three pages issues one DEL, of exactly the
  selected identifiers under that database's prefix, on that database's client; the world is then what
  that command made of it. The answer is a redirect back, or 502 with Redis's error. The counters in
  memory stay.\<close>

theorem delete_touches_selected:
  assumes "authorised sv r" and "wr_postForm r = Inr form" and "form_values form ''keys'' = ks"
    and "ks \<noteq> []" and "(back, db, pfx) \<in> set admin_targets" and "wr_path r = back @ ''/delete''"
    and "rc_del (db c) (map ((@) pfx) ks) (st_redis (ad_store st)) = (ans, r')"
  shows "\<exists>st'. Routes sv c env r st =
      Some (Inr (case ans of Inl e \<Rightarrow> HttpError 502 ''delete failed: '' (Some e) | Inr n \<Rightarrow> Redirect back 303), st')
    \<and> st_redis (ad_store st') = r' \<and> ad_known st' = ad_known st \<and> ad_unknown st' = ad_unknown st"
  using assms(5-7)
  by (auto simp: admin_targets_def Routes_def mux_clean handler_defs DeleteLimits_def DeleteAbuseKeys_def
      DeleteAbuseIPs_def abuse_key_prefix_def abuse_ip_prefix_def
      intro!: handleDelete_authorised[OF assms(1-4)])

lemma flush_db_eq:
  "flush_db c s = (fst (rc_flushdb c (st_redis s)),
     observe ''FlushDB'' (fst (rc_flushdb c (st_redis s))) (s\<lparr>st_redis := snd (rc_flushdb c (st_redis s))\<rparr>))"
  by (simp add: flush_db_def on_redis_eq Let_def)

definition asks_confirmation :: "admin_server \<Rightarrow> string \<Rightarrow> admin_page response \<Rightarrow> bool" where
  "asks_confirmation sv back res \<longleftrightarrow>
     (\<exists>d. res = Rendered ''confirm.html'' (ConfirmPage d) \<and> cd_Action d = back @ ''/purge'' \<and> cd_BackTo d = back
        \<and> cd_CSRFToken d = sv_csrfToken sv)"

lemma handlePurge_authorised:
  assumes "authorised sv r" and "rc_flushdb c (st_redis (ad_store st)) = (ans, r')"
    and "\<And>s. fn s = flush_db c s" and "action = back @ ''/purge''"
  shows "\<exists>res st'. handlePurge sv label back action fn r st = Some (Inr res, st')
    \<and> (if PostFormValue r ''confirm'' \<noteq> ''yes'' then asks_confirmation sv back res \<and> st' = st
       else res = (case ans of Some e \<Rightarrow> HttpError 502 ''purge failed: '' (Some e) | None \<Rightarrow> Redirect back 303)
         \<and> st_redis (ad_store st') = r' \<and> ad_known st' = ad_known st \<and> ad_unknown st' = ad_unknown st)"
proof -
  obtain form where "wr_method r = ''POST''" "wr_postForm r = Inr form"
    "PostFormValue r ''csrf_token'' = sv_csrfToken sv"
    using assms(1) by (auto simp: authorised_def PostFormValue_def)
  then show ?thesis
    using assms(2-)
    by (cases ans)
      (simp_all add: handlePurge_def checkCSRF_cases on_store_def flush_db_eq ad_logs_def asks_confirmation_def)
qed

text \<open>C15: Nothing but an authorised POST that carries \<^verbatim>\<open>confirm=yes\<close> purges, whether or not a form was
  asked for before. On each of the three purge paths, such a request issues one FLUSHDB, on the client
  of that page's database, and the world is then what that command made of it; an authorised POST
  without \<^verbatim>\<open>confirm=yes\<close> changes nothing and is answered with a form that posts back to the same path
  with the token; any other request is refused, with nothing done but a log line. The counters in
  memory stay.\<close>

theorem purge_needs_confirmation:
  assumes "(back, db, pfx) \<in> set admin_targets" and "wr_path r = back @ ''/purge''"
    and "rc_flushdb (db c) (st_redis (ad_store st)) = (ans, r')"
  shows "if \<not> authorised sv r then refused st (Routes sv c env r st)
    else \<exists>res st'. Routes sv c env r st = Some (Inr res, st')
      \<and> (if PostFormValue r ''confirm'' \<noteq> ''yes'' then asks_confirmation sv back res \<and> st' = st
         else res = (case ans of Some e \<Rightarrow> HttpError 502 ''purge failed: '' (Some e) | None \<Rightarrow> Redirect back 303)
           \<and> st_redis (ad_store st') = r' \<and> ad_known st' = ad_known st \<and> ad_unknown st' = ad_unknown st)"
proof -
  from assms(1) consider "back = ''/limits''" "db = limits" | "back = ''/abuse/keys''" "db = abuseK"
    | "back = ''/abuse/ips''" "db = abuseIP"
    by (auto simp: admin_targets_def)
  then obtain label fn where purge: "Routes sv c env r st = handlePurge sv label back (back @ ''/purge'') fn r st"
    "\<And>s. fn s = flush_db (db c) s"
    using assms(2)
    by cases (auto simp: Routes_def mux_clean handler_defs PurgeLimits_def PurgeAbuseKeys_def PurgeAbuseIPs_def)
  show ?thesis
  proof (cases "authorised sv r")
    case True
    with handlePurge_authorised[OF True assms(3), of fn] purge show ?thesis by simp
  next
    case False
    with handlePurge_refused(1)[OF False] purge show ?thesis by simp
  qed
qed

section \<open>Every request is answered\<close>

text \<open>The answer of a handler: there is one, the counters are as before, and a panic is a slice out of
  bounds.\<close>

definition answered :: "'r admin_state \<Rightarrow> 'r handled option \<Rightarrow> bool" where
  "answered st res \<longleftrightarrow>
     (\<exists>ans st'. res = Some (ans, st') \<and> ad_known st' = ad_known st \<and> ad_unknown st' = ad_unknown st
        \<and> (\<forall>p. ans = Inl p \<longrightarrow> p = SliceBounds))"

definition listing_paths :: "string list" where
  "listing_paths = [''/limits'', ''/abuse/keys'', ''/abuse/ips'']"

definition no_panic :: "'r handled option \<Rightarrow> bool" where
  "no_panic res \<longleftrightarrow> (\<exists>ans st'. res = Some (Inr ans, st'))"

lemma answered_simps [simp]:
  "answered st (Some (Inr a, st')) \<longleftrightarrow> ad_known st' = ad_known st \<and> ad_unknown st' = ad_unknown st"
  "answered st (Some (Inl p, st')) \<longleftrightarrow>
     ad_known st' = ad_known st \<and> ad_unknown st' = ad_unknown st \<and> p = SliceBounds"
  "no_panic (Some (Inr a, st'))" "\<not> no_panic (Some (Inl p, st'))"
  by (auto simp: answered_def no_panic_def)

lemma scan_okE:
  assumes "scan_ok y"
  obtains e s where "y = Some (ScanErr e, s)" | es s where "y = Some (Scanned es, s)"
proof (cases y)
  case (Some p)
  then show ?thesis using assms that by (cases p; cases "fst p") (auto simp: scan_ok_def)
qed (use assms in \<open>simp add: scan_ok_def\<close>)

lemma handleLimits_answers:
  assumes "scan_ok (ScanLimits c (ad_store st))"
  shows "answered st (handleLimits sv c env r st)"
  using assms
proof (cases rule: scan_okE)
  case (2 ls s)
  then show ?thesis
    by (cases "page_rows (page_number r) (limits_rows (ad_known st) (wr_query r ''q'') ls)")
      (auto simp: handleLimits_def Let_def dest: page_rows_panic_only)
qed (simp add: handleLimits_def Let_def)

lemma handleAbuse_answers:
  assumes "scan_ok (ac_scan cfg (ad_store st))"
  shows "answered st (handleAbuse sv cfg env r st)"
  using assms
proof (cases rule: scan_okE)
  case (2 es s)
  then show ?thesis
    by (cases "page_rows (page_number r) (abuse_rows (wr_query r ''q'') es)")
      (auto simp: handleAbuse_def Let_def dest: page_rows_panic_only)
qed (simp add: handleAbuse_def Let_def)

lemma handleDelete_answers:
  "answered st (handleDelete sv label back fn r st) \<and> no_panic (handleDelete sv label back fn r st)"
  by (auto simp: handleDelete_def checkCSRF_cases on_store_def ad_logs_def Let_def
      split: sum.split prod.split)

lemma handlePurge_answers:
  "answered st (handlePurge sv label back action fn r st) \<and> no_panic (handlePurge sv label back action fn r st)"
  by (auto simp: handlePurge_def checkCSRF_cases on_store_def ad_logs_def Let_def
      split: sum.split prod.split option.split)

lemma handleIndex_answers:
  "answered st (handleIndex sv c env r st) \<and> no_panic (handleIndex sv c env r st)"
  by (auto simp: handleIndex_def on_store_def Let_def split: prod.split)

text \<open>C35: Every admin request is answered, whatever its path, method and form, as long as the Redis
  cursors make progress: no handler loops, none changes the counters in memory, and none panics,
  except that the three listings may slice out of bounds (on the page numbers the paging property
  names).\<close>

theorem admin_answers:
  assumes "scan_progress (abuseK c) ''rate:abuse:key:*'' ''rate:abuse:key:'' rankK"
    and "scan_progress (abuseIP c) ''rate:abuse:ip:*'' ''rate:abuse:ip:'' rankI"
    and "scan_progress (limits c) ''rate:limit:*'' ''rate:limit:'' rankL"
  shows "answered st (Routes sv c env r st)
    \<and> (wr_path r \<notin> set listing_paths \<longrightarrow> no_panic (Routes sv c env r st))"
proof -
  have scans: "scan_ok (ScanLimits c s)" "scan_ok (ScanAbuseKeys c s)" "scan_ok (ScanAbuseIPs c s)" for s
    using scan_abuse_loop_ends[of "abuseK c" _ _ rankK] scan_abuse_loop_ends[of "abuseIP c" _ _ rankI]
      scan_limits_loop_ends[of "limits c" rankL] assms
    by (simp_all add: ScanAbuseKeys_def ScanAbuseIPs_def ScanLimits_def scanAbuse_def abuse_key_prefix_def
        abuse_ip_prefix_def)
  note listings = handleLimits_answers[OF scans(1)] handleAbuse_answers
  have abuse: "answered st (handleAbuseKeys sv c env r st)" "answered st (handleAbuseIPs sv c env r st)"
    unfolding handleAbuseKeys_def handleAbuseIPs_def by (rule handleAbuse_answers; simp add: scans)+
  have redirect: "answered st (Some (Inr (Redirect u n), st))" "no_panic (Some (Inr (Redirect u n), st))"
    for u n by (simp_all add: answered_def no_panic_def)
  show ?thesis
    unfolding Routes_def Let_def
    by (simp add: handler_defs listing_paths_def redirect abuse listings(1) handleDelete_answers
        handlePurge_answers handleIndex_answers)
qed

text \<open>Without any assumption on Redis: a handler that panics is one of the three listings.\<close>

lemma Routes_panic:
  assumes "Routes sv c env r st = Some (Inl pan, st')"
  shows "wr_path r \<in> set listing_paths"
proof (rule ccontr)
  assume "wr_path r \<notin> set listing_paths"
  moreover have "no_panic (Some (Inr (Redirect u n), st))" for u n by (simp add: no_panic_def)
  ultimately have "no_panic (Routes sv c env r st)"
    unfolding Routes_def Let_def
    by (simp add: handler_defs listing_paths_def handleDelete_answers handlePurge_answers handleIndex_answers)
  with assms show False by simp
qed

section \<open>The status page\<close>

text \<open>How a setting is shown.\<close>

fun show_setting :: "flag_value \<Rightarrow> string" where
  "show_setting (StrVal s) = s"
| "show_setting (IntVal i) = FormatInt i"
| "show_setting (DurVal d) = duration_String d"

text \<open>C38: The status page lists exactly the command-line flags, each once, in the order they are bound,
  with the value the flag reads; of the password it only shows whether one is set, so pages of two
  servers with different passwords are the same.\<close>

theorem flag_rows_complete:
  "flagRows c = map (\<lambda>(n, v). \<lparr>fr_Name = ''--'' @ n,
       fr_Value = (if n = ''redis-password'' then (if RedisPassword c = [] then ''(empty)'' else ''***'')
                   else show_setting (read_var v c))\<rparr>) BindFlags
   \<and> flagRows (c\<lparr>RedisPassword := p # ps\<rparr>) = flagRows (c\<lparr>RedisPassword := p' # ps'\<rparr>)"
  by (simp add: flagRows_def BindFlags_def)

section \<open>Links\<close>

lemma sort_settings:
  "sort_slice (\<lambda>a b. fst a < fst b) [(''topsort'', s)] = [(''topsort'', s)]"
  "sort_slice (\<lambda>a b. fst a < fst b) [(''topsort'', s), (''q'', q)] = [(''q'', q), (''topsort'', s)]"
  "sort_slice (\<lambda>a b. fst a < fst b) [(''topsort'', s), (''page'', p)] = [(''page'', p), (''topsort'', s)]"
  "sort_slice (\<lambda>a b. fst a < fst b) [(''topsort'', s), (''q'', q), (''page'', p)] =
     [(''page'', p), (''q'', q), (''topsort'', s)]"
proof -
  have less: "''q'' < ''topsort''" "''page'' < ''topsort''" "''page'' < ''q''"
    "\<not> ''topsort'' < ''page''" "\<not> ''topsort'' < ''q''" "\<not> ''q'' < ''page''"
    by code_simp+
  show "sort_slice (\<lambda>a b. fst a < fst b) [(''topsort'', s)] = [(''topsort'', s)]"
    "sort_slice (\<lambda>a b. fst a < fst b) [(''topsort'', s), (''q'', q)] = [(''q'', q), (''topsort'', s)]"
    "sort_slice (\<lambda>a b. fst a < fst b) [(''topsort'', s), (''page'', p)] = [(''page'', p), (''topsort'', s)]"
    "sort_slice (\<lambda>a b. fst a < fst b) [(''topsort'', s), (''q'', q), (''page'', p)] =
       [(''page'', p), (''q'', q), (''topsort'', s)]"
    by (simp_all only: sort_slice.simps insert_by.simps fst_conv less if_True if_False)
qed

lemma ParseQuery_encoded:
  "\<forall>kv\<in>set kvs. QueryEscape (fst kv) = fst kv \<and> fst kv \<noteq> [] \<Longrightarrow>
     ParseQuery (join_with ''&'' (map encode_setting kvs)) = kvs"
proof (induction kvs rule: induct_list012)
  case (2 kv)
  then show ?case
    using ParseQuery_escaped[of "fst kv" "snd kv"] by (simp add: encode_setting_def)
next
  case (3 kv kv' kvs)
  then have "query_setting (encode_setting kv) = Some kv" "CHR ''&'' \<notin> set (encode_setting kv)"
    using query_setting_escaped[of "fst kv" "snd kv"] by (simp_all add: encode_setting_def)
  with 3 show ?case by (simp add: ParseQuery_def split_on_append map_filter_simps)
qed simp

text \<open>C39: The links that flip the top table's sort lead to the view they were made in: a request for the
  link's query reads back the sort, the search text, whatever bytes it has, and the page.\<close>

theorem topsort_link_keeps_view:
  "\<exists>raw. topsortURL path sortBy q page = path @ ''?'' @ raw
     \<and> wr_query (r\<lparr>wr_rawQuery := raw\<rparr>) ''topsort'' = sortBy
     \<and> wr_query (r\<lparr>wr_rawQuery := raw\<rparr>) ''q'' = q
     \<and> page_number (r\<lparr>wr_rawQuery := raw\<rparr>) = (if 1 <s page then page else 1)"
proof -
  let ?v = "(''topsort'', sortBy) # (if q \<noteq> [] then [(''q'', q)] else [])
    @ (if 1 <s page then [(''page'', FormatInt page)] else [])"
  let ?kvs = "sort_slice (\<lambda>a b. fst a < fst b) ?v"
  let ?raw = "values_encode ?v"
  have names: "QueryEscape ''topsort'' = ''topsort''" "QueryEscape ''q'' = ''q''" "QueryEscape ''page'' = ''page''"
    by code_simp+
  have "ParseQuery ?raw = ?kvs"
    unfolding values_encode_def by (rule ParseQuery_encoded) (auto simp: names)
  then have get: "wr_query (r\<lparr>wr_rawQuery := ?raw\<rparr>) name = query_get ?kvs name" for name
    by (simp add: wr_query_def)
  have "Atoi [] = (0, Some ErrSyntax)" by (simp add: ParseInt_def)
  then have "page_number (r\<lparr>wr_rawQuery := ?raw\<rparr>) = (if 1 <s page then page else 1)"
    unfolding page_number_def get
    by (auto simp: query_get_def sort_settings ParseInt_FormatInt Let_def word_sless_alt)
  moreover have "query_get ?kvs ''topsort'' = sortBy" "query_get ?kvs ''q'' = q"
    by (auto simp: query_get_def sort_settings)
  moreover have "topsortURL path sortBy q page = path @ ''?'' @ ?raw"
    by (simp add: topsortURL_def Let_def)
  ultimately show ?thesis by (intro exI[of _ ?raw] conjI) (simp_all only: get)
qed

section \<open>Witnesses\<close>

definition post_request :: "string \<Rightarrow> (string \<times> string) list \<Rightarrow> web_request" where
  "post_request path form =
     \<lparr>wr_method = ''POST'', wr_path = path, wr_rawQuery = [], wr_postForm = Inr form, wr_remote = ''r''\<rparr>"

definition signed_form :: "(string \<times> string) list" where
  "signed_form = [(''csrf_token'', ''t0''), (''keys'', ''a''), (''keys'', ''c'')]"

theorem admin_requires_token_witness:
  "refused sample_admin (Routes sample_server mem_clients sample_env
     (post_request ''/limits/purge'' [(''confirm'', ''yes'')]) sample_admin)"
proof -
  let ?r = "post_request ''/limits/purge'' [(''confirm'', ''yes'')]"
  have 1: "\<not> authorised sample_server ?r" "wr_path ?r \<in> set write_paths"
    by (simp_all add: authorised_def sample_server_def post_request_def query_get_def write_paths_def)
  show ?thesis using admin_requires_token[OF 1(1)] 1(2) by blast
qed

theorem delete_touches_selected_witness:
  "map fst (m_db2 (st_redis (ad_store (snd (the (Routes sample_server mem_clients sample_env
     (post_request ''/abuse/keys/delete'' signed_form) sample_admin)))))) = [''rate:abuse:key:b'']"
proof -
  let ?r = "post_request ''/abuse/keys/delete'' signed_form"
  let ?db = "example_db\<lparr>m_db2 := [(''rate:abuse:key:b'', stored (example_abuse 6), 60)]\<rparr>"
  have 1: "authorised sample_server ?r" "wr_postForm ?r = Inr signed_form"
    "form_values signed_form ''keys'' = [''a'', ''c'']" "[''a'', ''c''] \<noteq> []"
    "(''/abuse/keys'', abuseK, ''rate:abuse:key:'') \<in> set admin_targets"
    "wr_path ?r = ''/abuse/keys'' @ ''/delete''"
    by (simp_all add: authorised_def sample_server_def post_request_def signed_form_def query_get_def
        form_values_def admin_targets_def)
  have 2: "rc_del (abuseK mem_clients) (map ((@) ''rate:abuse:key:'') [''a'', ''c'']) (st_redis (ad_store sample_admin)) =
      (Inr 2, ?db)"
    by (simp add: mem_client_def sample_admin_def mem_store_def store_New_def example_db_def mem_get_def
        mem_set_def DBLimits_def DBAbuseKey_def)
  show ?thesis using delete_touches_selected[OF 1 2, where env = sample_env] by auto
qed

theorem purge_needs_confirmation_witness:
  "m_db1 (st_redis (ad_store (snd (the (Routes sample_server mem_clients sample_env
     (post_request ''/limits/purge'' ((''confirm'', ''yes'') # signed_form)) sample_admin))))) = []
   \<and> snd (the (Routes sample_server mem_clients sample_env
     (post_request ''/limits/purge'' signed_form) sample_admin)) = sample_admin"
proof -
  let ?r = "\<lambda>form. post_request ''/limits/purge'' form"
  let ?db = "example_db\<lparr>m_db1 := []\<rparr>"
  have 1: "authorised sample_server (?r signed_form)" "authorised sample_server (?r ((''confirm'', ''yes'') # signed_form))"
    by (simp_all add: authorised_def sample_server_def post_request_def signed_form_def query_get_def)
  have 2: "(''/limits'', limits, ''rate:limit:'') \<in> set admin_targets"
    "wr_path (?r form) = ''/limits'' @ ''/purge''" for form
    by (simp_all add: admin_targets_def post_request_def)
  have 3: "rc_flushdb (limits mem_clients) (st_redis (ad_store sample_admin)) = (None, ?db)"
    by (simp add: mem_client_def sample_admin_def mem_store_def store_New_def example_db_def
        mem_set_def DBLimits_def)
  have "PostFormValue (?r signed_form) ''confirm'' \<noteq> ''yes''"
    "PostFormValue (?r ((''confirm'', ''yes'') # signed_form)) ''confirm'' = ''yes''" "m_db1 ?db = []"
    by (simp_all add: PostFormValue_def post_request_def signed_form_def query_get_def example_db_def)
  then show ?thesis
    using purge_needs_confirmation[OF 2(1) 2(2)[of signed_form] 3, where env = sample_env and sv = sample_server]
      purge_needs_confirmation[OF 2(1) 2(2)[of "(''confirm'', ''yes'') # signed_form"] 3,
        where env = sample_env and sv = sample_server] 1
    by auto
qed

theorem admin_answers_witness:
  "answered sample_admin (Routes sample_server mem_clients sample_env (get_request ''/abuse/ips'' []) sample_admin)"
proof -
  have 1: "scan_progress (abuseK mem_clients) ''rate:abuse:key:*'' ''rate:abuse:key:'' mem_rank"
    "scan_progress (abuseIP mem_clients) ''rate:abuse:ip:*'' ''rate:abuse:ip:'' mem_rank"
    "scan_progress (limits mem_clients) ''rate:limit:*'' ''rate:limit:'' mem_rank"
    by (simp_all add: mem_scan_progress)
  show ?thesis using admin_answers[OF 1] by blast
qed

end
