(* ===== verification/Service_Correct.thy ===== *)
theory Service_Correct
  imports Service Admin_Safety
begin

text \<open>
  Correctness of the process as a whole: what start-up establishes, an invariant of every reachable
  state (under it no check request, tick or final cleanup panics, and only the listings of the admin
  server do), the order of the shutdown, the probes in
  every phase, and the outcomes of the listener.
\<close>

section \<open>The shared state's invariant\<close>

definition map_key_ok :: "string \<Rightarrow> bool" where
  "map_key_ok k \<longleftrightarrow> HasPrefix k UnknownKeyPrefix \<or> HasPrefix k UnknownIPPrefix"

text \<open>Both maps count in windows of the same non-zero length and hold a key once; every key of the unknown
  map has one of the two prefixes.\<close>

definition maps_ok :: "int64 \<Rightarrow> known_map \<Rightarrow> unknown_map \<Rightarrow> bool" where
  "maps_ok ws km um \<longleftrightarrow>
     kWindowS km = ws \<and> uWindowS um = ws \<and> wf_known km \<and> wf_unknown um
     \<and> list_all map_key_ok (keys_of (uCounters um))"

definition cl_ok :: "int64 \<Rightarrow> 's cl_state \<Rightarrow> bool" where
  "cl_ok ws st \<longleftrightarrow> maps_ok ws (cl_known st) (cl_unknown st) \<and> (\<forall>p. CleanupPanic p \<notin> set (cl_log st))"

text \<open>What the rest of the process may do between two steps of a cycle.\<close>

definition keeps_ok :: "int64 \<Rightarrow> 's interference \<Rightarrow> bool" where
  "keeps_ok ws env \<longleftrightarrow> (\<forall>pt st. cl_ok ws st \<longrightarrow> cl_ok ws (env pt st))"

lemma keeps_okD: "keeps_ok ws env \<Longrightarrow> cl_ok ws st \<Longrightarrow> cl_ok ws (env pt st)"
  by (simp add: keeps_ok_def)

lemma maps_ok_nz: "maps_ok ws km um \<Longrightarrow> kWindowS km \<noteq> 0 \<and> uWindowS um \<noteq> 0 \<and> ws \<noteq> 0"
  by (auto simp: maps_ok_def wf_known_def)

lemma maps_ok_delete:
  assumes "maps_ok ws km um"
  shows "maps_ok ws (KnownMap_Delete km k) um" and "maps_ok ws km (UnknownMap_Delete um k)"
  using assms
  by (auto simp: maps_ok_def wf_known_def wf_unknown_def KnownMap_Delete_def UnknownMap_Delete_def list_all_iff
      dest: mem_alist_delete)

lemma cl_ok_simps [simp]:
  "cl_ok ws (cl_count f st) = cl_ok ws st" "cl_ok ws (st\<lparr>cl_store := s\<rparr>) = cl_ok ws st"
  "cl_ok ws (cl_logs (ExistsFailed k e) st) = cl_ok ws st" "cl_ok ws (cl_logs (LimitRemoved k) st) = cl_ok ws st"
  "cl_ok ws (cl_logs (UpsertFailed k e) st) = cl_ok ws st"
  "cl_ok ws (cl_logs (CleanupFinished d t dur) st) = cl_ok ws st"
  by (simp_all add: cl_ok_def cl_count_def cl_logs_def)

text \<open>No step of a cycle panics.\<close>

definition step_ok :: "int64 \<Rightarrow> (go_panic + 'a) \<times> 's cl_state \<Rightarrow> bool" where
  "step_ok ws res \<longleftrightarrow> (\<exists>a st'. res = (Inr a, st') \<and> cl_ok ws st')"

lemma drop_unknown_ok:
  assumes "cl_ok ws st"
  shows "step_ok ws (drop_unknown now k st)"
proof -
  have "uWindowS (cl_unknown st) \<noteq> 0" using assms maps_ok_nz by (auto simp: cl_ok_def)
  then show ?thesis
    using assms maps_ok_delete(2)[of ws "cl_known st" "cl_unknown st" k]
    by (auto simp: drop_unknown_def unknown_drop_eq step_ok_def cl_ok_def)
qed

lemma known_entry_ok:
  assumes "keeps_ok ws env" and "cl_ok ws st"
  shows "step_ok ws (known_entry ops env now k st)"
proof -
  let ?st0 = "env (PointExists k) st"
  obtain ans s' where ans: "co_LimitExists ops k (cl_store ?st0) = (ans, s')" by fastforce
  let ?st1 = "?st0\<lparr>cl_store := s'\<rparr>" and ?st2 = "env (PointKnownDrop k) (?st0\<lparr>cl_store := s'\<rparr>)"
  have ok: "cl_ok ws ?st0" "cl_ok ws ?st2"
    using assms by (simp_all add: keeps_okD)
  then have nz: "kWindowS (cl_known ?st2) \<noteq> 0" using maps_ok_nz by (auto simp: cl_ok_def)
  have del: "cl_ok ws (?st2\<lparr>cl_known := KnownMap_Delete (cl_known ?st2) k\<rparr>)"
    "cl_ok ws ((cl_logs (LimitRemoved k) ?st2)\<lparr>cl_known := KnownMap_Delete (cl_known ?st2) k\<rparr>)"
    using ok(2) maps_ok_delete(1) by (auto simp: cl_ok_def cl_logs_def)
  show ?thesis
    using ok del nz ans
    by (cases ans) (auto simp: known_entry_def Let_def known_drop_eq step_ok_def)
qed

lemma known_entries_ok:
  assumes "keeps_ok ws env"
  shows "cl_ok ws st \<Longrightarrow> step_ok ws (known_entries ops env now snaps d st)"
proof (induction snaps arbitrary: d st)
  case (Cons snap snaps)
  obtain k c where "snap = (k, c)" by fastforce
  with Cons known_entry_ok[OF assms Cons.prems, of ops now k] show ?case
    by (auto simp: step_ok_def)
qed (simp add: step_ok_def)

lemma unknown_entry_ok:
  assumes "keeps_ok ws env" and "cl_ok ws st"
  shows "step_ok ws (unknown_entry ops c env now redisUp snap st)"
proof -
  let ?k = "fst snap"
  let ?st1 = "env (PointGet ?k) st"
  have ok1: "cl_ok ws ?st1" and keep: "\<And>st pt. cl_ok ws st \<Longrightarrow> cl_ok ws (env pt st)"
    using assms by (auto simp: keeps_okD)
  show ?thesis
  proof (cases "cTransferThreshold c \<le>s uAbuseHits (snd snap) \<and> redisUp")
    case True
    show ?thesis
    proof (cases "UnknownMap_Get (cl_unknown ?st1) ?k")
      case (Some live)
      let ?st2 = "env (PointUpsert ?k) ?st1"
      obtain err s' where tr: "transfer ops c ?k live (cl_store ?st2) = (err, s')" by fastforce
      let ?st3 = "env (PointUnknownDrop ?k) (?st2\<lparr>cl_store := s'\<rparr>)"
      have ok3: "cl_ok ws ?st3" using ok1 by (simp add: keep)
      show ?thesis
        using True Some tr drop_unknown_ok[OF ok3, of now ?k]
          drop_unknown_ok[of ws "cl_logs (UpsertFailed ?k (the err)) (cl_count inc_redis_errors ?st3)" now ?k] ok3
        by (cases err) (auto simp: unknown_entry_def Let_def step_ok_def)
    qed (use True ok1 in \<open>simp add: unknown_entry_def Let_def step_ok_def\<close>)
  next
    case False
    then show ?thesis
      using drop_unknown_ok[OF keep[OF assms(2), of "PointUnknownDrop ?k"], of now ?k]
      by (auto simp: unknown_entry_def Let_def step_ok_def)
  qed
qed

lemma unknown_entries_ok:
  assumes "keeps_ok ws env"
  shows "cl_ok ws st \<Longrightarrow> step_ok ws (unknown_entries ops c env now redisUp snaps acc st)"
proof (induction snaps arbitrary: acc st)
  case (Cons snap snaps)
  with unknown_entry_ok[OF assms Cons.prems, of ops c now redisUp snap] show ?case
    by (auto simp: step_ok_def)
qed (simp add: step_ok_def)

lemma runKnown_ok:
  assumes "keeps_ok ws env" and "cl_ok ws st"
  shows "step_ok ws (runKnown ops env order now st)"
  using known_entries_ok[OF assms(1) keeps_okD[OF assms], where snaps = "KnownMap_Snapshot order m" for m]
  by (auto simp: runKnown_def Let_def step_ok_def split: prod.split sum.split) (metis prod.inject sum.distinct(1))+

lemma runUnknown_ok:
  assumes "keeps_ok ws env" and "cl_ok ws st"
  shows "step_ok ws (runUnknown ops c env order now st)"
  unfolding runUnknown_def Let_def
  by (rule unknown_entries_ok[OF assms(1) keeps_okD[OF assms(1) keeps_okD[OF assms]]])

lemma cleanup_Run_ok:
  assumes "keeps_ok ws (cy_env cy)" and "cl_ok ws st"
  shows "\<exists>st'. cleanup_Run ops c cy st = (None, st') \<and> cl_ok ws st'"
proof -
  obtain d t st1 where 1: "runKnown ops (cy_env cy) (cy_knownOrder cy) (cy_start cy)
      (cl_count inc_cleanup_runs st) = (Inr (d, t), st1)" "cl_ok ws st1"
    using runKnown_ok[OF assms(1), of "cl_count inc_cleanup_runs st" ops "cy_knownOrder cy" "cy_start cy"] assms(2)
    by (auto simp: step_ok_def)
  obtain d2 t2 st2 where 2: "runUnknown ops c (cy_env cy) (cy_unknownOrder cy) (cy_start cy) st1 =
      (Inr (d2, t2), st2)" "cl_ok ws st2"
    using runUnknown_ok[OF assms(1) 1(2), of ops c "cy_unknownOrder cy" "cy_start cy"] by (auto simp: step_ok_def)
  with 1(1) 2(1) show ?thesis
    by (auto simp: cleanup_Run_def Let_def keeps_okD[OF assms(1)] split: prod.split sum.split)
qed

section \<open>Requests keep the invariant\<close>

lemma maps_ok_record:
  assumes "maps_ok ws km um"
  shows "KnownMap_RecordRequest km now k l b = Inr (m, d) \<Longrightarrow> maps_ok ws m um"
    and "UnknownMap_RecordRequest um now k l b am = Inr (m', d) \<Longrightarrow> map_key_ok k \<Longrightarrow> maps_ok ws km m'"
proof -
  show "maps_ok ws m um" if "KnownMap_RecordRequest km now k l b = Inr (m, d)"
    using assms that wf_known_record[OF _ that]
    by (auto simp: maps_ok_def KnownMap_RecordRequest_def Let_def case_prod_beta split: sum.splits)
  show "maps_ok ws km m'" if "UnknownMap_RecordRequest um now k l b am = Inr (m', d)" "map_key_ok k"
    using assms that(2) wf_unknown_record[OF _ that(1)] that(1)
    by (auto simp: maps_ok_def UnknownMap_RecordRequest_def Let_def case_prod_beta list_all_iff
        split: sum.splits dest!: mem_alist_update)
qed

abbreviation lim_ok :: "int64 \<Rightarrow> 's lim_state \<Rightarrow> bool" where
  "lim_ok ws st \<equiv> maps_ok ws (ls_known st) (ls_unknown st)"

lemma decide_unknown_ok:
  "lim_ok ws st \<Longrightarrow> map_key_ok k \<Longrightarrow> lim_ok ws (snd (decide_unknown l now k st))"
  by (auto simp: decide_unknown_def Let_def split: sum.split dest: maps_ok_record(2))

lemma decide_known_ok: "lim_ok ws st \<Longrightarrow> lim_ok ws (snd (decide_known l now k lim st))"
  by (auto simp: decide_known_def Let_def split: sum.split dest: maps_ok_record(1))

lemma Decide_ok:
  assumes "lim_ok ws st"
  shows "lim_ok ws (snd (Decide l lookup now apiKey ip st))"
proof -
  have "map_key_ok (UnknownKeyPrefix @ apiKey)" "map_key_ok (UnknownIPPrefix @ ip)"
    by (simp_all add: map_key_ok_def)
  with assms show ?thesis
    by (auto simp: Decide_def decideWithKey_def decideWithIP_def Let_def intro: decide_unknown_ok decide_known_ok
        split: prod.split)
qed

lemma lim_ok_windows: "lim_ok ws st \<Longrightarrow> lim_windows ws st"
  using maps_ok_nz by (auto simp: maps_ok_def lim_windows_def)

text \<open>Under the service's invariant the limiter is a decider for the \<^verbatim>\<open>/check\<close> handler.\<close>

interpretation sd: observed_decider "\<lambda>k ip. Decide l lookup now k ip" "\<lambda>st. lim_ok ws st"
    "\<lambda>st. requests_decided (ls_metrics st)" "\<lambda>d. with_metrics (observe_check d)" for l lookup now ws
proof (unfold_locales, goal_cases)
  case (1 st k ip)
  then show ?case
    using dec.decide_total[OF lim_ok_windows[OF 1], of l lookup now k ip] Decide_ok[OF 1, of l lookup now k ip]
    by auto
qed (simp_all add: dec.keyless)

section \<open>The service's invariant\<close>

definition service_ok :: "int64 \<Rightarrow> 'r service \<Rightarrow> bool" where
  "service_ok ws st \<longleftrightarrow> maps_ok ws (se_known st) (se_unknown st)
     \<and> (\<forall>p. CleanupPanic p \<notin> set (se_cleanupLog st)) \<and> (\<forall>p. CheckPanic p \<notin> set (se_checkLog st))"

lemma clean_check: "cleanPath ''/check'' = ''/check''"
  by code_simp

lemma routes_ok:
  assumes "service_ok ws st"
  shows "service_ok ws (snd (routes p path start now fin r st))"
    and "path = ''/check'' \<Longrightarrow> fst (routes p path start now fin r st) \<in> {200, 403}"
    and "path = ''/check'' \<Longrightarrow>
      requests_decided (se_metrics (snd (routes p path start now fin r st))) = Suc (requests_decided (se_metrics st))"
proof -
  let ?lim = "as_lim st" and ?res = "check_request (pg_limiter p) (LookupLimit (pg_clients p)) start now fin r (as_lim st)"
  have lim: "lim_ok ws ?lim" using assms by (simp add: as_lim_def service_ok_def)
  from sd.serve_decides_once[OF lim, where l = "pg_limiter p" and lookup = "LookupLimit (pg_clients p)"
      and now = now and start = start and fin = fin and r = r]
  obtain b s' where d: "Decide (pg_limiter p) (LookupLimit (pg_clients p)) now (extractKey r) (extractIP r) ?lim = (Inr b, s')"
    "fst ?res = Some (if b then 200 else 403)" "lim_ok ws (snd (snd ?res))"
    "requests_decided (ls_metrics (snd (snd ?res))) = Suc (requests_decided (ls_metrics ?lim))"
    unfolding check_request_def by metis
  have log: "CheckPanic pan \<notin> set (fst (snd ?res))" for pan
    by (simp add: check_request_def ServeHTTP_def Let_def d(1))
  show "service_ok ws (snd (routes p path start now fin r st))"
    using assms d(3) log by (auto simp: routes_def Let_def service_ok_def put_lim_def)
  have clean: "\<not> mux_redirects verb ''/check''" for verb
    using clean_check by (simp add: mux_redirects_def)
  show "path = ''/check'' \<Longrightarrow> fst (routes p path start now fin r st) \<in> {200, 403}"
    using clean d(2) by (simp add: routes_def Let_def response_status_def)
  show "path = ''/check'' \<Longrightarrow>
      requests_decided (se_metrics (snd (routes p path start now fin r st))) = Suc (requests_decided (se_metrics st))"
    using clean d(4) by (simp add: routes_def Let_def put_lim_def as_lim_def)
qed

text \<open>The admin handlers only read the maps.\<close>

definition keeps_maps :: "'r admin_state \<Rightarrow> 'r handled option \<Rightarrow> bool" where
  "keeps_maps st res \<longleftrightarrow>
     (case res of None \<Rightarrow> True | Some (ans, st') \<Rightarrow> ad_known st' = ad_known st \<and> ad_unknown st' = ad_unknown st)"

lemma keeps_maps_simps [simp]:
  "keeps_maps st None"
  "keeps_maps st (Some (ans, st')) \<longleftrightarrow> ad_known st' = ad_known st \<and> ad_unknown st' = ad_unknown st"
  by (simp_all add: keeps_maps_def)

lemma answered_keeps_maps: "answered st res \<Longrightarrow> keeps_maps st res"
  by (auto simp: answered_def)

lemma listings_keep_maps:
  "keeps_maps st (handleLimits sv c env r st)" "keeps_maps st (handleAbuse sv cfg env r st)"
  by (simp_all add: handleLimits_def handleAbuse_def Let_def split: option.split prod.split scanned.split sum.split)

lemma Routes_keeps_maps: "keeps_maps st (Routes sv c env r st)"
  unfolding Routes_def Let_def
  by (simp add: handler_defs listings_keep_maps handleAbuseKeys_def handleAbuseIPs_def
      handleDelete_answers handlePurge_answers handleIndex_answers answered_keeps_maps)

lemma adminMux_ok:
  "service_ok ws st \<Longrightarrow> adminMux p down env r st = Some (res, st') \<Longrightarrow> service_ok ws st'"
  using Routes_keeps_maps[of "as_admin st" "pg_admin p" "pg_clients p" env r]
  by (auto simp: adminMux_def readyz_def Let_def service_ok_def put_admin_def as_admin_def
      split: if_splits option.splits prod.splits)

lemma updateRedisGauges_ok: "service_ok ws st \<Longrightarrow> service_ok ws (updateRedisGauges c st)"
  by (simp add: updateRedisGauges_def service_ok_def se_logs_def split: prod.split sum.split)

lemma se_logs_ok [simp]: "service_ok ws (se_logs e st) = service_ok ws st"
  by (simp add: service_ok_def se_logs_def)

lemma as_cl_ok: "service_ok ws st \<Longrightarrow> cl_ok ws (as_cl st)"
  by (simp add: service_ok_def cl_ok_def as_cl_def)

lemma put_cl_ok: "service_ok ws st \<Longrightarrow> cl_ok ws c \<Longrightarrow> service_ok ws (put_cl c st)"
  by (simp add: service_ok_def cl_ok_def put_cl_def)

section \<open>Executions\<close>

text \<open>An event whose cycle, if it has one, is only interfered with by things that keep the invariant, as
  every other event does.\<close>

fun admissible :: "int64 \<Rightarrow> ('r, 'f) event \<Rightarrow> bool" where
  "admissible ws (CleanupTick cy) = keeps_ok ws (cy_env cy)"
| "admissible ws (FinalRun cy) = keeps_ok ws (cy_env cy)"
| "admissible ws _ = True"

inductive executes :: "int64 \<Rightarrow> 'r program \<Rightarrow> 'r running \<Rightarrow> ('r, 'f) event list \<Rightarrow> 'r running \<Rightarrow> bool"
  for ws :: int64 and p :: "'r program" and s0 :: "'r running" where
  nothing: "executes ws p s0 [] s0"
| event: "executes ws p s0 es s \<Longrightarrow> admissible ws e \<Longrightarrow> run_event p e s = Some s' \<Longrightarrow>
    executes ws p s0 (es @ [e]) s'"

inductive_simps executes_Nil: "executes ws p s0 [] s"

lemma service_simps [simp]:
  "ru_service (with_service f s) = f (ru_service s)" "ru_phase (with_service f s) = ru_phase s"
  "ru_shuttingDown (with_service f s) = ru_shuttingDown s" "ru_check (with_service f s) = ru_check s"
  "ru_cleanupLoop (with_service f s) = ru_cleanupLoop s" "ru_gaugeLoop (with_service f s) = ru_gaugeLoop s"
  "ru_admin (with_service f s) = ru_admin s" "ru_metrics (with_service f s) = ru_metrics s"
  by (simp_all add: with_service_def)

lemma log_shutdown_simps [simp]:
  "ru_phase (log_shutdown srv err s) = ru_phase s" "ru_shuttingDown (log_shutdown srv err s) = ru_shuttingDown s"
  "ru_check (log_shutdown srv err s) = ru_check s"
  "service_ok ws (ru_service (log_shutdown srv err s)) = service_ok ws (ru_service s)"
  by (simp_all add: log_shutdown_def split: option.split)

lemma server_fails_simps:
  "server_fails srv s = Some s' \<Longrightarrow> ru_phase s' = ru_phase s \<and> ru_service s' = ru_service s
     \<and> ru_shuttingDown s' = ru_shuttingDown s \<and> sr_conns (ru_check s') = sr_conns (ru_check s)"
  by (cases srv) (auto split: if_splits)

lemma final_run_ok:
  assumes "service_ok ws (ru_service s)" and "keeps_ok ws (cy_env cy)"
  shows "ru_phase (final_run p cy s) = Flushed \<and> service_ok ws (ru_service (final_run p cy s))"
proof -
  let ?st = "se_logs FinalCleanup (ru_service s)"
  have ok: "service_ok ws ?st" using assms(1) by simp
  from cleanup_Run_ok[OF assms(2) as_cl_ok[OF ok], of "store_ops (pg_clients p)" "pg_cleanup p"]
  obtain c where "cleanup_Run (store_ops (pg_clients p)) (pg_cleanup p) cy (as_cl ?st) = (None, c)" "cl_ok ws c"
    by blast
  then show ?thesis using put_cl_ok[OF ok] by (simp add: final_run_def Let_def)
qed

lemma loop_tick_ok:
  assumes "service_ok ws st" and "keeps_ok ws (cy_env cy)"
  shows "service_ok ws (put_cl (loop_tick ops c cy (as_cl st)) st)"
  using cleanup_Run_ok[OF assms(2) as_cl_ok[OF assms(1)], of ops c] put_cl_ok[OF assms(1)]
  by (auto simp: loop_tick_def)

text \<open>The invariant of a running process.\<close>

definition running_ok :: "int64 \<Rightarrow> 'r running \<Rightarrow> bool" where
  "running_ok ws s \<longleftrightarrow> service_ok ws (ru_service s) \<and> ru_phase s \<noteq> Crashed"

lemma run_event_ok:
  assumes "running_ok ws s" and "admissible ws e" and "run_event p e s = Some s'"
  shows "running_ok ws s'"
proof (cases e)
  case (AdminRequest env r)
  with assms show ?thesis
    by (auto simp: running_ok_def split: if_splits option.splits prod.splits sum.splits dest: adminMux_ok)
next
  case (ServerFails srv err)
  with assms show ?thesis
    by (auto simp: running_ok_def split: if_splits dest: server_fails_simps)
next
  case (ShutdownOther srv err)
  with assms show ?thesis by (cases srv) (auto simp: running_ok_def split: if_splits)
next
  case (CallShutdown srv)
  with assms show ?thesis by (cases srv) (auto simp: running_ok_def split: if_splits)
next
  case (FinalRun cy)
  with assms final_run_ok[of ws s cy p] show ?thesis by (auto simp: running_ok_def split: if_splits)
next
  case (CheckRequest path start now fin r)
  with assms show ?thesis by (auto simp: running_ok_def routes_ok(1) split: if_splits)
next
  case GaugeTick
  with assms show ?thesis by (auto simp: running_ok_def updateRedisGauges_ok split: if_splits)
next
  case (CleanupTick cy)
  with assms show ?thesis by (auto simp: running_ok_def loop_tick_ok split: if_splits)
qed (use assms in \<open>auto simp: running_ok_def split: if_splits\<close>)

lemma executes_ok:
  "executes ws p s0 es s \<Longrightarrow> running_ok ws s0 \<Longrightarrow> running_ok ws s"
  by (induction rule: executes.induct) (auto intro: run_event_ok)

lemma build_ok:
  assumes "build cfg mk startedAt version rand r = Inr (p, st)"
  shows "service_ok (WindowSeconds cfg) st"
  using assms wf_known_new[OF WindowSeconds_nz, of cfg] wf_unknown_new[OF WindowSeconds_nz, of cfg]
  by (auto simp: build_def Let_def case_prod_beta service_ok_def maps_ok_def NewKnownMap_def NewUnknownMap_def
      split: sum.splits)

lemma run_start_build:
  assumes "run_start os cfg mk startedAt version rand r w = (Inr (p, st, ln), w')"
  shows "build cfg mk startedAt version rand r = Inr (p, st)" and "Validate cfg = None"
  using assms by (auto simp: run_start_def Let_def split: option.splits sum.splits prod.splits)

lemma started_ok:
  assumes "run_start os cfg mk startedAt version rand r w = (Inr (p, st, ln), w')"
    and "executes (WindowSeconds cfg) p (boot st) es s"
  shows "running_ok (WindowSeconds cfg) s"
  using executes_ok[OF assms(2)] build_ok[OF run_start_build(1)[OF assms(1)]]
  by (simp add: running_ok_def boot_def)

section \<open>Recovered panics of the admin server\<close>

text \<open>The log of the process records a panic of an admin handler; an event adds such a line only when it
  is an admin request for one of the three listings.\<close>

lemma adminMux_panic: "adminMux p down env r st = Some (Inl pan, st') \<Longrightarrow> wr_path r \<in> set listing_paths"
  by (auto simp: adminMux_def Let_def split: if_splits prod.splits option.splits dest: Routes_panic)

definition admin_panics :: "'r running \<Rightarrow> go_panic set" where
  "admin_panics s = {pan. AdminPanic pan \<in> set (se_log (ru_service s))}"

lemma se_log_frame [simp]:
  "se_log (put_cl c st) = se_log st" "se_log (put_lim l st) = se_log st" "se_log (put_admin a st) = se_log st"
  "se_log (se_logs e st) = se_log st @ [e]" "se_log (snd (routes p path start now fin r st)) = se_log st"
  by (simp_all add: put_cl_def put_lim_def put_admin_def se_logs_def routes_def Let_def)

lemma adminMux_log: "adminMux p down env r st = Some (res, st') \<Longrightarrow> se_log st' = se_log st"
  by (auto simp: adminMux_def readyz_def Let_def split: if_splits prod.splits option.splits)

lemma gauges_log: "AdminPanic pan \<in> set (se_log (updateRedisGauges c st)) \<longleftrightarrow> AdminPanic pan \<in> set (se_log st)"
  by (simp add: updateRedisGauges_def split: prod.split sum.split)

lemma log_shutdown_panics: "admin_panics (log_shutdown srv err s) = admin_panics s"
  by (simp add: admin_panics_def log_shutdown_def split: option.split)

lemma final_run_panics: "admin_panics (final_run p cy s) = admin_panics s"
  by (simp add: admin_panics_def final_run_def Let_def split: prod.split option.split)

lemma admin_panics_simps:
  "admin_panics (s\<lparr>ru_phase := ph\<rparr>) = admin_panics s" "admin_panics (s\<lparr>ru_check := sr\<rparr>) = admin_panics s"
  "admin_panics (s\<lparr>ru_admin := sr\<rparr>) = admin_panics s" "admin_panics (s\<lparr>ru_metrics := sr\<rparr>) = admin_panics s"
  "admin_panics (s\<lparr>ru_cleanupLoop := b\<rparr>) = admin_panics s" "admin_panics (s\<lparr>ru_gaugeLoop := b\<rparr>) = admin_panics s"
  "admin_panics (s\<lparr>ru_shuttingDown := b\<rparr>) = admin_panics s"
  by (simp_all add: admin_panics_def)

lemma run_event_panics:
  assumes "run_event p e s = Some s'" and "pan \<in> admin_panics s'" and "pan \<notin> admin_panics s"
  shows "\<exists>env r. e = AdminRequest env r \<and> wr_path r \<in> set listing_paths"
proof (cases e)
  case (AdminRequest env r)
  then obtain res st where m: "adminMux p (ru_shuttingDown s) env r (ru_service s) = Some (res, st)"
    "ru_service s' = (case res of Inl pan \<Rightarrow> se_logs (AdminPanic pan) st | Inr a \<Rightarrow> st)"
    using assms(1) by (auto split: if_splits option.splits sum.splits)
  note log = adminMux_log[OF m(1)]
  show ?thesis
  proof (cases res)
    case (Inl pan')
    with m AdminRequest adminMux_panic show ?thesis by blast
  next
    case (Inr a)
    with m log assms(2,3) show ?thesis by (simp add: admin_panics_def)
  qed
next
  case (ServerFails srv err)
  with assms show ?thesis
    by (auto simp: admin_panics_def split: if_splits dest: server_fails_simps)
next
  case (ShutdownOther srv err)
  with assms show ?thesis
    by (cases srv) (auto simp: log_shutdown_panics admin_panics_simps split: if_splits)
next
  case (CallShutdown srv)
  with assms show ?thesis by (cases srv) (auto simp: admin_panics_simps split: if_splits)
next
  case (ShutdownCheck err)
  with assms show ?thesis by (auto simp: log_shutdown_panics admin_panics_simps split: if_splits)
next
  case (FinalRun cy)
  with assms show ?thesis by (auto simp: final_run_panics split: if_splits)
next
  case GaugeTick
  with assms show ?thesis by (auto simp: admin_panics_def gauges_log split: if_splits)
qed (use assms in \<open>auto simp: admin_panics_def split: if_splits\<close>)

lemma executes_panics:
  "executes ws p s0 es s \<Longrightarrow> pan \<in> admin_panics s \<Longrightarrow> pan \<notin> admin_panics s0 \<Longrightarrow>
     \<exists>env r. AdminRequest env r \<in> set es \<and> wr_path r \<in> set listing_paths"
proof (induction rule: executes.induct)
  case (event es s e s')
  show ?case
  proof (cases "pan \<in> admin_panics s")
    case True
    with event.IH event.prems show ?thesis by auto
  next
    case False
    with run_event_panics[OF event.hyps(3) event.prems(1)] show ?thesis by auto
  qed
qed simp

lemma build_panics: "build cfg mk startedAt version rand r = Inr (p, st) \<Longrightarrow> admin_panics (boot st) = {}"
  by (auto simp: build_def Let_def case_prod_beta admin_panics_def boot_def split: sum.splits)

text \<open>C4: However a started process runs, whatever requests, ticks, failing servers and shutdown steps
  come in whatever order, and whatever Redis does: it never crashes; nothing has panicked in
  \<^verbatim>\<open>/check\<close> or in a cleanup cycle; a panic net/http recovered came from a request for one of the three
  admin listings (which do panic, on the page numbers the paging property names); both maps keep
  counting in the configured window and every unknown counter carries one of the two prefixes cleanup
  knows (so the "unknown counter key prefix" error cannot occur); and in every state the next
  \<^verbatim>\<open>/check\<close> request is answered 200 or 403 and counted once.\<close>

theorem only_listings_panic:
  assumes "run_start os cfg mk startedAt version rand r w = (Inr (p, st, ln), w')"
    and "executes (WindowSeconds cfg) p (boot st) es s"
  shows "running_ok (WindowSeconds cfg) s
    \<and> (admin_panics s \<noteq> {} \<longrightarrow> (\<exists>env r. AdminRequest env r \<in> set es \<and> wr_path r \<in> set listing_paths))
    \<and> fst (routes p ''/check'' start now fin rq (ru_service s)) \<in> {200, 403}
    \<and> requests_decided (se_metrics (snd (routes p ''/check'' start now fin rq (ru_service s)))) =
        Suc (requests_decided (se_metrics (ru_service s)))"
proof -
  have ok: "running_ok (WindowSeconds cfg) s" by (rule started_ok[OF assms])
  moreover have "\<exists>env r. AdminRequest env r \<in> set es \<and> wr_path r \<in> set listing_paths" if "admin_panics s \<noteq> {}"
    using that executes_panics[OF assms(2)] build_panics[OF run_start_build(1)[OF assms(1)]] by blast
  ultimately show ?thesis
    using routes_ok(2,3)[of "WindowSeconds cfg" "ru_service s" "''/check''"] by (simp add: running_ok_def)
qed

end
