(* ===== verification/Service_Life.thy ===== *)
theory Service_Life
  imports Service_Correct
begin

text \<open>
  The life of the process: the order in which it shuts down, what the probes answer in every phase,
  what start-up checks and wires, and what the listener leaves behind on each path.
\<close>

section \<open>Shutdown\<close>

text \<open>The statements of the main goroutine among the events.\<close>

fun is_main :: "('r, 'f) event \<Rightarrow> bool" where
  "is_main Signal = True"
| "is_main (ShutdownCheck err) = True"
| "is_main (FinalRun cy) = True"
| "is_main CancelRoot = True"
| "is_main Exit = True"
| "is_main _ = False"

fun is_check :: "('r, 'f) event \<Rightarrow> bool" where
  "is_check (CheckRequest path start now fin r) = True"
| "is_check _ = False"

text \<open>What the main goroutine has done by each phase.\<close>

fun done_by :: "phase \<Rightarrow> ('r, 'f) event list \<Rightarrow> bool" where
  "done_by Serving es \<longleftrightarrow> es = []"
| "done_by Signalled es \<longleftrightarrow> es = [Signal]"
| "done_by CheckClosed es \<longleftrightarrow> (\<exists>err. es = [Signal, ShutdownCheck err])"
| "done_by Flushed es \<longleftrightarrow> (\<exists>err cy. es = [Signal, ShutdownCheck err, FinalRun cy])"
| "done_by Cancelled es \<longleftrightarrow> (\<exists>err cy. es = [Signal, ShutdownCheck err, FinalRun cy, CancelRoot])"
| "done_by Stopped es \<longleftrightarrow> (\<exists>err cy. es = [Signal, ShutdownCheck err, FinalRun cy, CancelRoot, Exit])"
| "done_by Crashed es \<longleftrightarrow> (\<exists>err cy. es = [Signal, ShutdownCheck err, FinalRun cy])"

text \<open>The facts about a run so far that each event keeps: main's progress, the shutdown flag, whether the
  check server is drained, and the loops, which end only after the cancellation.\<close>

definition life_ok :: "('r, 'f) event list \<Rightarrow> 'r running \<Rightarrow> bool" where
  "life_ok es s \<longleftrightarrow>
     done_by (ru_phase s) (filter is_main es)
     \<and> (ru_shuttingDown s \<longleftrightarrow> Signal \<in> set es)
     \<and> (ShutdownCheck None \<in> set es \<longrightarrow> \<not> sr_conns (ru_check s))
     \<and> (ru_phase s = Stopped \<longrightarrow> goroutines_done s)
     \<and> (ru_phase s \<notin> {Cancelled, Stopped} \<longrightarrow> ru_cleanupLoop s \<and> ru_gaugeLoop s)"

lemma life_boot: "life_ok [] (boot st)"
  by (simp add: life_ok_def boot_def)

lemma server_fails_loops:
  "server_fails srv s = Some s' \<Longrightarrow> ru_cleanupLoop s' = ru_cleanupLoop s \<and> ru_gaugeLoop s' = ru_gaugeLoop s"
  by (cases srv) (auto split: if_splits)

lemma log_shutdown_loops [simp]:
  "ru_cleanupLoop (log_shutdown srv err s) = ru_cleanupLoop s" "ru_gaugeLoop (log_shutdown srv err s) = ru_gaugeLoop s"
  by (simp_all add: log_shutdown_def split: option.split)

lemma with_service_done [simp]: "goroutines_done (with_service f s) = goroutines_done s"
  by (simp add: goroutines_done_def)

lemma final_run_simps:
  "ru_phase (final_run p cy s) \<in> {Flushed, Crashed}" "ru_check (final_run p cy s) = ru_check s"
  "ru_shuttingDown (final_run p cy s) = ru_shuttingDown s" "ru_cleanupLoop (final_run p cy s) = ru_cleanupLoop s"
  "ru_gaugeLoop (final_run p cy s) = ru_gaugeLoop s"
  by (auto simp: final_run_def Let_def split: prod.split option.split)

lemma shutdown_other_frame:
  assumes "run_event p (ShutdownOther srv err) s = Some s'"
  shows "ru_phase s' = ru_phase s \<and> ru_phase s \<noteq> Stopped \<and> ru_shuttingDown s' = ru_shuttingDown s
    \<and> ru_check s' = ru_check s \<and> ru_cleanupLoop s' = ru_cleanupLoop s \<and> ru_gaugeLoop s' = ru_gaugeLoop s"
proof -
  have "ru_phase s \<noteq> Stopped" using assms by (auto split: if_splits)
  with assms show ?thesis by (cases srv; simp split: if_splits; force)
qed

lemma call_shutdown_frame:
  assumes "run_event p (CallShutdown srv) s = Some s'"
  shows "ru_phase s' = ru_phase s \<and> ru_phase s \<noteq> Stopped \<and> ru_shuttingDown s' = ru_shuttingDown s
    \<and> sr_conns (ru_check s') = sr_conns (ru_check s) \<and> ru_cleanupLoop s' = ru_cleanupLoop s
    \<and> ru_gaugeLoop s' = ru_gaugeLoop s"
  using assms by (cases srv) (auto simp: call_shutdown_def split: if_splits)

lemma life_event:
  assumes "life_ok es s" and "run_event p e s = Some s'"
  shows "life_ok (es @ [e]) s'"
proof (cases e)
  case (AdminRequest env r)
  with assms show ?thesis
    by (auto simp: life_ok_def goroutines_done_def split: if_splits option.splits prod.splits sum.splits)
next
  case (ServerFails srv err)
  then obtain t where "server_fails srv s = Some t" "s' = with_service (se_logs (ServerFailed srv err)) t"
    "ru_phase s \<noteq> Stopped"
    using assms(2) by (auto split: if_splits)
  with ServerFails assms(1) server_fails_simps[of srv s t] server_fails_loops[of srv s t] show ?thesis
    by (auto simp: life_ok_def)
next
  case (ShutdownOther srv err)
  with assms shutdown_other_frame[of p srv err s s'] show ?thesis by (auto simp: life_ok_def)
next
  case (CallShutdown srv)
  with assms call_shutdown_frame[of p srv s s'] show ?thesis by (auto simp: life_ok_def)
next
  case (FinalRun cy)
  with assms final_run_simps[of p cy s] show ?thesis by (auto simp: life_ok_def split: if_splits)
next
  case (ShutdownCheck err)
  with assms show ?thesis by (auto simp: life_ok_def server_shutdown_def split: if_splits)
qed (use assms in \<open>auto simp: life_ok_def goroutines_done_def split: if_splits\<close>)

lemma executes_life:
  "executes ws p (boot st) es s \<Longrightarrow> life_ok es s"
  by (induction rule: executes.induct) (simp_all add: life_boot life_event)

lemma no_check_when_drained:
  assumes "executes ws p (boot st) es s"
  shows "es = before @ ShutdownCheck None # after \<Longrightarrow> \<not> list_ex is_check after"
  using assms
proof (induction arbitrary: after rule: executes.induct)
  case (event es s e s')
  show ?case
  proof (cases after rule: rev_cases)
    case (snoc a' e')
    then have e: "e' = e" "es = before @ ShutdownCheck None # a'" using event.prems by auto
    then have "\<not> sr_conns (ru_check s)" using executes_life[OF event.hyps(1)] by (simp add: life_ok_def)
    then have "\<not> is_check e" using event.hyps(3) by (cases e) (auto split: if_splits)
    with event.IH[OF e(2)] snoc e show ?thesis by simp
  qed simp
qed simp

text \<open>C7: The process stops in the documented order. When it has stopped, its main goroutine has, once
  each and in this order, seen the signal, shut the check server down, run the final cleanup, cancelled
  the root context and returned; every goroutine it started has ended, and it does nothing more. If the
  check server shut down in time, no \<^verbatim>\<open>/check\<close> request was handled from then on, so the final cleanup
  flushed what they all counted.\<close>

theorem shutdown_order:
  assumes "executes ws p (boot st) es s" and "ru_phase s = Stopped"
  shows "(\<exists>err cy. filter is_main es = [Signal, ShutdownCheck err, FinalRun cy, CancelRoot, Exit])
    \<and> goroutines_done s \<and> run_event p e s = None
    \<and> (es = before @ ShutdownCheck None # after \<longrightarrow> \<not> list_ex is_check after)"
proof (intro conjI impI)
  note life = executes_life[OF assms(1), unfolded life_ok_def]
  show "\<exists>err cy. filter is_main es = [Signal, ShutdownCheck err, FinalRun cy, CancelRoot, Exit]"
    and "goroutines_done s"
    using life assms(2) by auto
  show "run_event p e s = None" using assms(2) by (cases e) (auto split: server.split)
  show "\<not> list_ex is_check after" if "es = before @ ShutdownCheck None # after"
    by (rule no_check_when_drained[OF assms(1) that])
qed

section \<open>Probes\<close>

definition probe :: "string \<Rightarrow> web_request" where
  "probe path = \<lparr>wr_method = ''GET'', wr_path = path, wr_rawQuery = [], wr_postForm = Inr [], wr_remote = []\<rparr>"

lemma clean_probes: "\<not> mux_redirects verb ''/healthz''" "\<not> mux_redirects verb ''/readyz''"
proof -
  have "cleanPath ''/healthz'' = ''/healthz''" "cleanPath ''/readyz'' = ''/readyz''" by code_simp+
  then show "\<not> mux_redirects verb ''/healthz''" "\<not> mux_redirects verb ''/readyz''"
    by (simp_all add: mux_redirects_def)
qed

text \<open>C25: In every state of a running process, \<^verbatim>\<open>/healthz\<close> answers 200 and touches nothing. From the signal
  on \<^verbatim>\<open>/readyz\<close> answers 503 without asking Redis; before it, it answers 200 exactly when Redis answers
  a ping, and the store's health flag then says the same.\<close>

theorem probes_in_every_phase:
  assumes "executes ws p (boot st) es s" and "wr_path h = ''/healthz''" and "wr_path r = ''/readyz''"
    and "rc_ping (limits (pg_clients p)) (st_redis (se_store (ru_service s))) = (err, world)"
  shows "adminMux p (ru_shuttingDown s) env h (ru_service s) = Some (Inr (BareStatus 200), ru_service s)
    \<and> (\<exists>st'. adminMux p (ru_shuttingDown s) env r (ru_service s) =
          Some (Inr (if Signal \<in> set es then HttpError 503 ''shutting down'' None
                     else case err of None \<Rightarrow> BareStatus 200
                          | Some e \<Rightarrow> HttpError 503 ''redis unreachable: '' (Some e)), st')
        \<and> (if Signal \<in> set es then st' = ru_service s
           else st_redis (se_store st') = world \<and> (IsHealthy (se_store st') \<longleftrightarrow> err = None \<or> err = Some RedisNil)))"
proof -
  have down: "ru_shuttingDown s \<longleftrightarrow> Signal \<in> set es"
    using executes_life[OF assms(1)] by (simp add: life_ok_def)
  have ping: "Ping (pg_clients p) (se_store (ru_service s)) =
      (err, observe ''Ping'' err ((se_store (ru_service s))\<lparr>st_redis := world\<rparr>))"
    using assms(4) by (simp add: Ping_def on_redis_eq)
  show ?thesis
    using assms(2,3)
    by (cases err) (simp_all add: adminMux_def Let_def clean_probes healthz_def readyz_def down ping IsHealthy_def observe_healthy)
qed

section \<open>Start-up\<close>






section \<open>The listener\<close>

text \<open>What POSIX and Go's \<^verbatim>\<open>net\<close> document: \<open>files\<close> are the paths that exist with their mode, \<open>live\<close> the open
  listeners. Binding to an existing path fails; a new listener is not among the open ones.\<close>

definition os_laws :: "('w, 'l) os \<Rightarrow> ('w \<Rightarrow> string \<Rightarrow> int option) \<Rightarrow> ('w \<Rightarrow> 'l set) \<Rightarrow> bool" where
  "os_laws os files live \<longleftrightarrow>
     (\<forall>pa w e w'. os_stat os pa w = (e, w') \<longrightarrow> w' = w \<and> (e = None \<longrightarrow> files w pa \<noteq> None))
     \<and> (\<forall>pa w e w'. os_remove os pa w = (e, w') \<longrightarrow> live w' = live w)
     \<and> (\<forall>net pa w ans w'. os_listen os net pa w = (ans, w') \<longrightarrow>
          (case ans of Inl e \<Rightarrow> live w' = live w
           | Inr ln \<Rightarrow> ln \<notin> live w \<and> live w' = insert ln (live w)
               \<and> (net = ''unix'' \<longrightarrow> files w pa = None \<and> files w' pa \<noteq> None)))
     \<and> (\<forall>pa m w e w'. os_chmod os pa m w = (e, w') \<longrightarrow>
          live w' = live w \<and> (e = None \<longrightarrow> files w' pa = Some m))
     \<and> (\<forall>ln w. live (os_close os ln w) = live w - {ln})"

lemma os_lawsD:
  assumes "os_laws os files live"
  shows "os_stat os pa w = (e, w') \<Longrightarrow> w' = w"
    and "os_remove os pa w = (e, w') \<Longrightarrow> live w' = live w"
    and "os_listen os net pa w = (Inl er, w') \<Longrightarrow> live w' = live w"
    and "os_listen os net pa w = (Inr ln, w') \<Longrightarrow> ln \<notin> live w \<and> live w' = insert ln (live w)"
    and "os_chmod os pa m w = (e, w') \<Longrightarrow> live w' = live w \<and> (e = None \<longrightarrow> files w' pa = Some m)"
    and "live (os_close os ln w) = live w - {ln}"
  using assms unfolding os_laws_def by (fastforce split: sum.splits)+

text \<open>C37: \<^verbatim>\<open>listen\<close> leaks no listener: on every failure, the one of the chmod included, the same listeners
  are open as before; on success there is exactly one more, and a unix socket then has the configured
  mode.\<close>

theorem listen_leaks_nothing:
  assumes "os_laws os files live" and "listen os spec m w = (ans, w')"
  shows "(case ans of Inl e \<Rightarrow> live w' = live w | Inr ln \<Rightarrow> ln \<notin> live w \<and> live w' = insert ln (live w))
    \<and> (\<forall>ln pa. ans = Inr ln \<and> spec = ''unix:'' @ pa \<longrightarrow> files w' pa = Some m)"
proof (cases "HasPrefix spec ''unix:''")
  case False
  then have "spec \<noteq> ''unix:'' @ pa" for pa using HasPrefix_append[of "''unix:''" pa] by blast
  with False assms(2) os_lawsD(3,4)[OF assms(1), of "''tcp''" spec w] show ?thesis
    by (auto simp: listen_def split: prod.splits sum.splits)
next
  case True
  then obtain pa where spec: "spec = ''unix:'' @ pa" by (auto simp: HasPrefix_iff)
  have pa: "TrimPrefix (''unix:'' @ pa) ''unix:'' = pa" "HasPrefix (''unix:'' @ pa) ''unix:''"
    by (rule TrimPrefix_append HasPrefix_append)+
  obtain missing w1 where 1: "os_stat os pa w = (missing, w1)" by fastforce
  obtain rerr w2 where 2: "(if missing = None then os_remove os pa w1 else (None, w1)) = (rerr, w2)" by fastforce
  have live2: "live w2 = live w"
    using os_lawsD(1,2)[OF assms(1)] 1 2 by (auto split: if_splits)
  show ?thesis
  proof (cases rerr)
    case (Some e)
    with assms(2) spec pa 1 2 live2 show ?thesis by (auto simp: listen_def Let_def)
  next
    case None
    obtain a w3 where 3: "os_listen os ''unix'' pa w2 = (a, w3)" by fastforce
    show ?thesis
    proof (cases a)
      case (Inl e)
      with assms(2) spec pa 1 2 3 None live2 os_lawsD(3)[OF assms(1), of _ _ w2] show ?thesis
        by (auto simp: listen_def Let_def)
    next
      case (Inr ln)
      then have 4: "ln \<notin> live w2" "live w3 = insert ln (live w2)" using os_lawsD(4)[OF assms(1)] 3 by blast+
      obtain e w4 where 5: "os_chmod os pa m w3 = (e, w4)" by fastforce
      note chmod = os_lawsD(5)[OF assms(1) 5]
      show ?thesis
        using assms(2) spec pa 1 2 3 Inr None live2 4 5 chmod os_lawsD(6)[OF assms(1), of ln w4]
        by (cases e) (auto simp: listen_def Let_def)
    qed
  qed
qed

section \<open>An operating system, and a sample run\<close>

text \<open>An instance of the laws: files with modes, listeners numbered as they are opened.\<close>

record mem_os =
  mo_files :: "(string \<times> int) list"
  mo_live :: "(nat \<times> string) list"
  mo_next :: nat

definition fs_os :: "(mem_os, nat) os" where
  "fs_os =
     \<lparr>os_stat = (\<lambda>pa w. (if map_of (mo_files w) pa = None then Some (ErrMsg ''not found'') else None, w)),
      os_remove = (\<lambda>pa w. (None, w\<lparr>mo_files := AList.delete pa (mo_files w)\<rparr>)),
      os_listen = (\<lambda>net pa w.
        if net = ''unix'' \<and> map_of (mo_files w) pa \<noteq> None then (Inl (ErrMsg ''address already in use''), w)
        else (Inr (mo_next w),
              w\<lparr>mo_files := (if net = ''unix'' then AList.update pa 493 (mo_files w) else mo_files w),
                mo_live := (mo_next w, pa) # mo_live w, mo_next := Suc (mo_next w)\<rparr>)),
      os_chmod = (\<lambda>pa m w.
        if map_of (mo_files w) pa = None then (Some (ErrMsg ''not found''), w)
        else (None, w\<lparr>mo_files := AList.update pa m (mo_files w)\<rparr>)),
      os_close = (\<lambda>ln w. w\<lparr>mo_live := filter (\<lambda>l. fst l \<noteq> ln) (mo_live w)\<rparr>)\<rparr>"

definition empty_os :: mem_os where
  "empty_os = \<lparr>mo_files = [], mo_live = [], mo_next = 0\<rparr>"

text \<open>The open listeners are below \<open>mo_next\<close> in every state the witnesses reach; a state that is not
  so has none that count.\<close>

definition fs_live :: "mem_os \<Rightarrow> nat set" where
  "fs_live w = fst ` set (mo_live w) \<inter> {..<mo_next w}"

lemma fs_os_laws: "os_laws fs_os (\<lambda>w. map_of (mo_files w)) fs_live"
  by (auto simp: os_laws_def fs_os_def fs_live_def split: if_splits sum.splits)

theorem listen_leaks_nothing_witness:
  "map_of (mo_files (snd (listen fs_os ''unix:/s'' 438 empty_os))) ''/s'' = Some 438"
proof -
  have 1: "fst (listen fs_os (''unix:'' @ ''/s'') 438 empty_os) = Inr 0" by code_simp
  have "listen fs_os (''unix:'' @ ''/s'') 438 empty_os = (Inr 0, snd (listen fs_os (''unix:'' @ ''/s'') 438 empty_os))"
    using 1 by (metis prod.collapse)
  from listen_leaks_nothing[OF fs_os_laws this] show ?thesis by simp
qed

text \<open>A second instance on the same path does not fail to bind: it has just removed the socket the first
  one listens on, and takes it over while the first still runs.\<close>

lemma listen_takes_over:
  "(let (first, w1) = listen fs_os ''unix:/s'' 438 empty_os; (second, w2) = listen fs_os ''unix:/s'' 438 w1
    in first = Inr 0 \<and> second = Inr 1 \<and> map fst (mo_live w2) = [1, 0])"
  by code_simp

definition sample_start ::
  "(run_err + mem_redis program \<times> mem_redis service \<times> nat) \<times> mem_os" where
  "sample_start = run_start fs_os Default (\<lambda>addr pw. mem_client) (unix_time 0) ''dev'' (Inr (replicate 32 171))
     example_db empty_os"

definition sample_program :: "mem_redis program" where
  "sample_program = (case fst sample_start of Inr (p, st, ln) \<Rightarrow> p | Inl e \<Rightarrow> undefined)"

definition sample_service :: "mem_redis service" where
  "sample_service = (case fst sample_start of Inr (p, st, ln) \<Rightarrow> st | Inl e \<Rightarrow> undefined)"

lemma sample_started:
  obtains ln w where "run_start fs_os Default (\<lambda>addr pw. mem_client) (unix_time 0) ''dev'' (Inr (replicate 32 171))
     example_db empty_os = (Inr (sample_program, sample_service, ln), w)"
proof -
  have "case fst sample_start of Inr (p, st, ln) \<Rightarrow> True | Inl e \<Rightarrow> False" by code_simp
  then obtain p st ln where fst: "fst sample_start = Inr (p, st, ln)" by (auto split: sum.splits)
  then have "p = sample_program" "st = sample_service" by (simp_all add: sample_program_def sample_service_def)
  with fst that[of ln "snd sample_start"] show ?thesis
    unfolding sample_start_def by (metis prod.collapse)
qed


text \<open>The metrics server's \<^verbatim>\<open>Shutdown\<close> has not returned when the process exits, which the code allows.\<close>

definition sample_events :: "(mem_redis, string) event list" where
  "sample_events =
     [CheckRequest ''/check'' (unix_time 60) (unix_time 60) (unix_time 60)
        \<lparr>hr_method = ''GET'', hr_header = [(''X-Real-Ip'', ''::1'')], hr_rawQuery = []\<rparr>,
      GaugeTick, Signal, CallShutdown CheckServer, ShutdownCheck None, CallShutdown AdminServer,
      FinalRun example_cycle, ShutdownOther AdminServer None, CancelRoot, CleanupExit,
      CallShutdown MetricsServer, GaugeExit, Exit]"

lemma run_events_snoc:
  "run_events p (es @ [e]) s = (case run_events p es s of None \<Rightarrow> None | Some s' \<Rightarrow> run_event p e s')"
  by (induction es arbitrary: s) (auto split: option.split)

lemma executes_run:
  "run_events p es s = Some s' \<Longrightarrow> list_all (admissible ws) es \<Longrightarrow> executes ws p s es s'"
proof (induction es arbitrary: s' rule: rev_induct)
  case (snoc e es)
  then show ?case by (auto simp: run_events_snoc split: option.splits intro: executes.event)
qed (auto intro: executes.nothing)

lemma sample_executes:
  assumes "es = take n sample_events" and "run_events sample_program es (boot sample_service) = Some s"
  shows "executes (WindowSeconds Default) sample_program (boot sample_service) es s"
proof (rule executes_run[OF assms(2)])
  have "list_all (admissible (WindowSeconds Default)) sample_events"
    by (simp add: sample_events_def example_cycle_def keeps_ok_def)
  then show "list_all (admissible (WindowSeconds Default)) es"
    unfolding assms(1) by (auto simp: list_all_iff dest: in_set_takeD)
qed

lemma sample_run:
  obtains s where "run_events sample_program sample_events (boot sample_service) = Some s" "ru_phase s = Stopped"
proof -
  have "case run_events sample_program sample_events (boot sample_service) of
      Some s \<Rightarrow> ru_phase s = Stopped | None \<Rightarrow> False" by code_simp
  then show ?thesis using that by (auto split: option.splits)
qed

theorem shutdown_order_witness:
  "\<exists>s. run_events sample_program sample_events (boot sample_service) = Some s \<and> goroutines_done s"
proof -
  obtain s where s: "run_events sample_program sample_events (boot sample_service) = Some s" "ru_phase s = Stopped"
    by (rule sample_run)
  have "sample_events = take (length sample_events) sample_events" by simp
  from shutdown_order[OF sample_executes[OF this s(1)] s(2)] s(1) show ?thesis by blast
qed

theorem only_listings_panic_witness:
  "\<exists>s. run_events sample_program sample_events (boot sample_service) = Some s \<and> running_ok (WindowSeconds Default) s"
proof -
  obtain ln w where start: "run_start fs_os Default (\<lambda>addr pw. mem_client) (unix_time 0) ''dev'' (Inr (replicate 32 171))
     example_db empty_os = (Inr (sample_program, sample_service, ln), w)" by (rule sample_started)
  obtain s where s: "run_events sample_program sample_events (boot sample_service) = Some s" "ru_phase s = Stopped"
    by (rule sample_run)
  have "sample_events = take (length sample_events) sample_events" by simp
  from only_listings_panic[OF start sample_executes[OF this s(1)]] s(1) show ?thesis by blast
qed

theorem probes_in_every_phase_witness:
  "\<exists>s. run_events sample_program (take 3 sample_events) (boot sample_service) = Some s
     \<and> map_option fst (adminMux sample_program (ru_shuttingDown s) sample_env (probe ''/readyz'') (ru_service s)) =
         Some (Inr (HttpError 503 ''shutting down'' None))"
proof -
  have "case run_events sample_program (take 3 sample_events) (boot sample_service) of Some s \<Rightarrow> True | None \<Rightarrow> False"
    by code_simp
  then obtain s where s: "run_events sample_program (take 3 sample_events) (boot sample_service) = Some s"
    by (auto split: option.splits)
  have paths: "wr_path (probe ''/healthz'') = ''/healthz''" "wr_path (probe ''/readyz'') = ''/readyz''"
    by (simp_all add: probe_def)
  obtain err world where ping: "rc_ping (limits (pg_clients sample_program)) (st_redis (se_store (ru_service s))) = (err, world)"
    by fastforce
  have "Signal \<in> set (take 3 sample_events)" by (simp add: sample_events_def)
  with probes_in_every_phase[OF sample_executes[OF refl s] paths ping, where env = sample_env] s show ?thesis by auto
qed

end
