(* ===== verification/Divergences.thy ===== *)
theory Divergences
  imports Service_Life
begin

text \<open>
  Where the code parts from its documents or from what it means to do, each with the run that shows
  it. (The socket take-over is \<open>listen_takes_over\<close> in \<open>Service_Life\<close>, the overflow of limit and burst
  \<open>huge_limit_blocks\<close> in \<open>Counter_Correct\<close>, the panicking page numbers \<open>page_rows_panics\<close> in
  \<open>Admin_Correct\<close>.)
\<close>

section \<open>The clock is read before the lock\<close>

fun known_run :: "known_map \<Rightarrow> int64 \<Rightarrow> int64 \<Rightarrow> (go_time \<times> string) list \<Rightarrow> bool list" where
  "known_run m l b [] = []"
| "known_run m l b ((now, k) # rs) =
     (case KnownMap_RecordRequest m now k l b of
        Inl p \<Rightarrow> []
      | Inr (m', d) \<Rightarrow> dAllowed d # known_run m' l b rs)"

text \<open>A request that read the clock at the end of slot 9 and took the mutex after one of slot 10 moves the
  counter back, and the next request of slot 10 finds its window empty again: two requests are
  admitted in slot 10 under a limit of one.\<close>

lemma stale_reading_overadmits:
  "known_run (NewKnownMap 1) 1 0 [(unix_time 10, ''k''), (unix_time 9, ''k''), (unix_time 10, ''k'')] =
     [True, True, True]
   \<and> known_run (NewKnownMap 1) 1 0 [(unix_time 9, ''k''), (unix_time 10, ''k''), (unix_time 10, ''k'')] =
     [True, True, False]"
  by code_simp

section \<open>Admitted requests count as abuse\<close>

fun unknown_run ::
  "unknown_map \<Rightarrow> int64 \<Rightarrow> int64 \<Rightarrow> int64 \<Rightarrow> (go_time \<times> string) list \<Rightarrow> bool list \<times> unknown_map" where
  "unknown_run m l b am [] = ([], m)"
| "unknown_run m l b am ((now, k) # rs) =
     (case UnknownMap_RecordRequest m now k l b am of
        Inl p \<Rightarrow> ([], m)
      | Inr (m', d) \<Rightarrow> (case unknown_run m' l b am rs of (as, m'') \<Rightarrow> (dAllowed d # as, m'')))"

text \<open>A configuration that passes validation, under which a client whose requests were all admitted (the
  last three from the burst zone) collects an abuse hit: validation compares the burst alone, and not
  limit plus burst, with the abuse threshold.\<close>

definition overlapping :: config where
  "overlapping = Default\<lparr>GlobalLimit := 2, Burst := 3, AbuseMultiplier := 2\<rparr>"

lemma burst_zone_reaches_abuse:
  "Validate overlapping = None
   \<and> (let (answers, m) = unknown_run (NewUnknownMap 1) (GlobalLimit overlapping) (Burst overlapping)
            (AbuseMultiplier overlapping) (replicate 5 (unix_time 7, ''key:k'') @ [(unix_time 8, ''key:k'')])
      in answers = replicate 6 True \<and> map_option uAbuseHits (UnknownMap_Get m ''key:k'') = Some 1)"
  by code_simp

section \<open>The product of limit and multiplier wraps\<close>

text \<open>A configuration within every documented range, refused because the product is \<open>2 ^ 64\<close>; this is
  why \<open>validate_documented\<close> asks for a product that fits.\<close>

lemma wrapped_product_refused:
  "Validate (Default\<lparr>GlobalLimit := 2 ^ 62, AbuseMultiplier := 4\<rparr>) = Some (BurstTooLarge 0 (2 ^ 62) 4 0)"
  by code_simp

section \<open>A limit that does not parse\<close>

text \<open>Each lookup of such a key writes a warning and is counted as a Redis error, healthy as Redis is.\<close>

lemma unparseable_limit_logs_each:
  "(let s = snd (LookupLimit mem_clients ''a'' (snd (LookupLimit mem_clients ''a'' (mem_store example_db))))
    in length (st_log s) = 2 \<and> IsHealthy s)
   \<and> RedisErrorsTotal (ls_metrics (snd (Decide (limiter_New 5 0 10) (LookupLimit mem_clients) (unix_time 60)
        ''a'' [] (fresh_state (mem_store example_db))))) = 1"
  by code_simp

section \<open>Page numbers past the end of int64\<close>

text \<open>Beside those that panic, a wrapped page number may show rows of other pages.\<close>

lemma wrapped_page_shows_rows:
  "page_rows 3689348814741910325 [0..<30 :: nat] = Inr [20..<30]"
  by code_simp

end
