(* ===== verification/Spec2Isabelle.thy ===== *)
theory Spec2Isabelle
  imports Divergences
begin

text \<open>
  A model of api-ratelimiter, a Go service that answers the \<^verbatim>\<open>auth_request\<close> subrequests of a reverse
  proxy with 200 or 403, and what is proved of it.

  \<^bold>\<open>The program.\<close> A \<^verbatim>\<open>/check\<close> request carries an API key or an address
  (\<^verbatim>\<open>internal/handler/check.go\<close>). The limiter (\<^verbatim>\<open>internal/limiter\<close>) asks Redis for the key's own limit
  (\<^verbatim>\<open>internal/store\<close>) and counts the request in one of two in-memory maps of fixed-window counters
  (\<^verbatim>\<open>internal/counter\<close>): keys with a limit of their own in the known map; every other key, every key
  while Redis fails, and the addresses of keyless requests in the unknown map. A periodic cleanup
  (\<^verbatim>\<open>internal/cleanup\<close>) drops idle counters and writes the abusive unknown ones to Redis. The admin
  pages (\<^verbatim>\<open>internal/admin\<close>) show and edit the Redis databases; \<^verbatim>\<open>cmd/api-ratelimiter/main.go\<close> wires the
  parts, runs the loops and servers, and shuts them down. \<^verbatim>\<open>internal/config\<close> and \<^verbatim>\<open>internal/metrics\<close>
  are what their names say.

  \<^bold>\<open>The theories.\<close>
  \<^item> \<open>Ratelimit_Prelude\<close>: association lists with distinct keys (a Go map), sorting by a comparison
    (\<^verbatim>\<open>sort.Slice\<close>, whose result is unique where the comparison is total on the elements), run lengths.
  \<^item> \<open>Go_Base\<close>, \<open>Go_Time\<close>, \<open>Go_Net\<close>, \<open>Go_Query\<close>, \<open>Go_Format\<close>: the parts of the language and its standard
    library the program uses: int64 as \<open>64 word\<close>, panics as values, slicing, \<^verbatim>\<open>strconv\<close>, times with
    monotonic readings, \<^verbatim>\<open>net.ParseIP\<close>, \<^verbatim>\<open>url.Parse\<close>, queries, escaping, durations, dates.
  \<^item> \<open>Config\<close>: \<^verbatim>\<open>config.go\<close>; while limit times multiplier fits 64 bits, validation accepts exactly the
    documented integer ranges and octal socket modes; each flag is bound to a field of its own.
  \<^item> \<open>Metrics\<close>: \<^verbatim>\<open>metrics.go\<close>; the numbers the collectors hold and the table of collectors.
  \<^item> \<open>Fixed_Window\<close>: the abstract counter both maps implement, as the locales \<open>counter_map\<close> and
    \<open>counter_gc\<close>: a counter's fields are statistics of the run of slot numbers it saw, each slot admits
    exactly the first limit+burst requests, and collecting idle counters at any points of a run whose
    clock does not go back changes no decision.
  \<^item> \<open>Counter\<close>, \<open>Counter_Correct\<close>: \<^verbatim>\<open>known.go\<close> and \<^verbatim>\<open>unknown.go\<close>; both maps interpret the locales.
  \<^item> \<open>Interfaces\<close>: the Go interfaces \<^verbatim>\<open>limiter.LimitLookup\<close>, \<^verbatim>\<open>cleanup.Store\<close> and \<^verbatim>\<open>handler.Decider\<close> as
    locales, interpreted by the store (\<open>Store_Correct\<close>) and the limiter (\<open>Limiter_Correct\<close>,
    \<open>Handler_Correct\<close>, \<open>Service_Correct\<close>).
  \<^item> \<open>Store\<close>, \<open>Store_Correct\<close>: \<^verbatim>\<open>redis.go\<close> over an abstract go-redis client: health transitions are logged
    once, lookups on every branch, scans end and read back what upserts wrote. \<open>Redis_Memory\<close> is an
    in-memory Redis on which the witnesses run.
  \<^item> \<open>Limiter\<close>, \<open>Limiter_Correct\<close>: \<^verbatim>\<open>limiter.go\<close> refines one fixed-window counter per route, so each
    client gets exactly its limit plus burst per slot, end to end, whatever others send.
  \<^item> \<open>Handler\<close>, \<open>Handler_Correct\<close>: \<^verbatim>\<open>check.go\<close>; key and address extraction, one decision per request,
    200 on a panic.
  \<^item> \<open>Cleanup\<close>, \<open>Cleanup_Correct\<close>: \<^verbatim>\<open>cleanup.go\<close>; what a cycle drops, keeps and transfers, also in an
    outage and, for transfers, under interference by requests between its steps.
  \<^item> \<open>Admin\<close>, \<open>Admin_Tables\<close>, \<open>Admin_Actions\<close>: \<^verbatim>\<open>admin.go\<close>: pages as the data their templates get,
    sorting and paging, delete and purge, routing. \<open>Admin_Correct\<close>: the tables do not depend on map or
    sort order, pages partition the rows, which rows every page number shows and which panic.
    \<open>Admin_Safety\<close>: no write without the token, what a delete writes, a purge only with
    \<^verbatim>\<open>confirm=yes\<close>, every request answered, flags shown, links.
  \<^item> \<open>Service\<close>: \<^verbatim>\<open>main.go\<close>: logger, listener, start-up, probes, gauges, and the life of the process as
    events. \<open>Service_Correct\<close>: an invariant of every reachable state: no crash, no panic in \<^verbatim>\<open>/check\<close>
    or a cleanup cycle, and those net/http recovers come from the admin listings only.
    \<open>Service_Life\<close>: the shutdown order, the probes in each phase, what start-up wires, the listener.
  \<^item> \<open>Divergences\<close>: runs on which the code departs from its documents or its purpose.

  \<^bold>\<open>How code and model correspond.\<close> A Go struct is a record with a prefix per type, an operation is a
  function of the same name from state to result and state, an error or a panic is a value of a sum.
  A critical section of a map is one function; the clock reading a method takes before it locks is
  its argument, as are the order a Go map is iterated in and every call of a library. Requests, ticks
  and the statements of the main goroutine are events (\<open>run_event\<close>), the call of a server's \<^verbatim>\<open>Shutdown\<close>
  and its return being two; a cleanup cycle carries what happens between its own steps, the readings
  of its gauges included, as a function of the point and the state (\<open>cy_env\<close>). \<^verbatim>\<open>http.ServeMux\<close> is
  the one of Go 1.21, which \<^verbatim>\<open>go.mod\<close> names. Cursor loops over
  Redis are partial functions: that they return is proved from the progress Redis documents
  (\<open>scan_progress\<close>), not assumed. There is no fuel in the model.

  \<^bold>\<open>Parameters and hypotheses.\<close> The go-redis client (\<open>redis_client\<close>), the operating system (\<open>os\<close>), the
  random source, what \<^verbatim>\<open>ParseForm\<close> made of a body, the Prometheus registry and the printing of floats
  are arguments. Their documented behaviour appears as named hypotheses (\<open>serves\<close>, \<open>scan_progress\<close>,
  \<open>os_laws\<close>), each met by a concrete instance in a witness.

  \<^bold>\<open>Not modelled.\<close> The HTML templates and HTTP transport (a page is the data its template gets; a
  response its status and that data), the command-line parser, the text of log lines beyond what
  distinguishes them, context deadlines other than as errors a Redis command may return, the timeouts and
  pool sizes the clients are made with (what they cause is part of what a client may answer), and
  \<^verbatim>\<open>Close\<close> of the clients. Steps
  of the event model are atomic: the interleaving inside a \<^verbatim>\<open>/check\<close> request is the one of its single
  map operation, which the mutex serialises, and that inside a cleanup cycle is \<open>cy_env\<close>.
\<close>

end
